theory Spec2Isabelle
  imports Main "HOL-Library.AList"
begin

section \<open>Data model\<close>

text \<open>
  Scalar values held in table cells and model attributes. Only values on which Python's
  \<^verbatim>\<open>==\<close> is structural equality are represented (no booleans or floats, for which
  \<^verbatim>\<open>1 == True == 1.0\<close>).
\<close>

datatype val = VNone | VInt int | VStr string

text \<open>
  A value map is the Python \<^verbatim>\<open>dict\<close> built by \<^verbatim>\<open>dict(zip(table_headers, row))\<close>:
  an association list in insertion order.
\<close>

type_synonym value_map = "(string \<times> val) list"

text \<open>
  A data descriptor of a class: a class attribute (a property, the descriptor of a related
  object) that intercepts every read and every assignment of its name on an instance.
  \<open>desc_get\<close> is what reading the name gives, from the attributes of the instance;
  \<open>desc_set\<close> is what assigning a value does to them. Either may raise: a property without
  a setter raises \<^verbatim>\<open>AttributeError\<close> on assignment, the descriptor of a related object
  raises \<^verbatim>\<open>ValueError\<close> for a value that is not a model instance.
\<close>

datatype descriptor_error = RaiseAttributeError | RaiseValueError | RaiseTypeError

record descriptor =
  desc_get :: "(string \<times> val) list \<Rightarrow> descriptor_error + val"
  desc_set :: "val \<Rightarrow> (string \<times> val) list \<Rightarrow> descriptor_error + (string \<times> val) list"

text \<open>
  What the adapter reads from a model class: \<^verbatim>\<open>[f.name for f in model._meta.fields]\<close>,
  \<^verbatim>\<open>model._meta.pk.name\<close>, \<^verbatim>\<open>model._meta.label\<close> and \<^verbatim>\<open>model._meta.model_name\<close>;
  and the data descriptors the class defines, by name, which decide what \<^verbatim>\<open>getattr\<close> and
  \<^verbatim>\<open>setattr\<close> do on its instances. The property \<^verbatim>\<open>pk\<close>, which every model class
  inherits, is not listed: it is built into the attribute access below.
\<close>

record model_class =
  field_names :: "string list"
  pk_name :: string
  label :: string
  model_name :: string
  descriptors :: "(string \<times> descriptor) list"

text \<open>
  A model instance: its class and its own attributes with their values (the fields and
  any other attribute set on the object).
\<close>

record model_instance =
  inst_class :: model_class
  attrs :: "(string \<times> val) list"

text \<open>
  An exception raised by the storage layer (\<^verbatim>\<open>save\<close>, \<^verbatim>\<open>bulk_create\<close>,
  \<^verbatim>\<open>objects.all\<close>), with the two attributes the adapter may attach to it.
\<close>

record exn =
  exn_type :: string
  petl_data :: "value_map option"
  petl_chunk_data :: "model_instance list option"

datatype error =
    AssertionError string
  | TypeError
  | AttributeError
  | StopIteration
  | ValueError
  | FieldError
  | KeyError
  | UnableToApplyValueMapError string
  | Raised exn

fun raised :: "descriptor_error \<Rightarrow> error" where
  "raised RaiseAttributeError = AttributeError"
| "raised RaiseValueError = ValueError"
| "raised RaiseTypeError = TypeError"

text \<open>
  A queryset: the model it queries and its records, in the queryset's order.
\<close>

record queryset =
  qs_model :: model_class
  qs_records :: "model_instance list"

text \<open>
  The arguments \<^verbatim>\<open>fromdjango\<close> and \<^verbatim>\<open>todjango\<close> validate are untyped Python objects.
  For the \<^verbatim>\<open>model\<close> argument: a subclass of \<^verbatim>\<open>Model\<close>, another class, or an object that
  is not a class (for which \<^verbatim>\<open>issubclass\<close> raises \<^verbatim>\<open>TypeError\<close>). For the
  \<^verbatim>\<open>queryset\<close> argument: an object whose type is exactly \<^verbatim>\<open>QuerySet\<close>, an instance of a
  subclass of \<^verbatim>\<open>QuerySet\<close>, or anything else.
\<close>

datatype py_model_arg = ModelClass model_class | OtherClass | NotAClass

datatype py_queryset_arg = QuerySet queryset | QuerySetSubclass queryset | NotAQuerySet

fun is_model_class :: "py_model_arg \<Rightarrow> bool" where
  "is_model_class (ModelClass M) = True"
| "is_model_class OtherClass = False"
| "is_model_class NotAClass = False"

text \<open>\<^verbatim>\<open>isinstance(q, QuerySet)\<close>: the object is a queryset.\<close>

fun is_queryset :: "py_queryset_arg \<Rightarrow> bool" where
  "is_queryset (QuerySet qs) = True"
| "is_queryset (QuerySetSubclass qs) = True"
| "is_queryset NotAQuerySet = False"

text \<open>\<^verbatim>\<open>type(q) == QuerySet\<close>: the check \<^verbatim>\<open>fromdjango\<close> makes.\<close>

fun type_is_QuerySet :: "py_queryset_arg \<Rightarrow> bool" where
  "type_is_QuerySet (QuerySet qs) = True"
| "type_is_QuerySet (QuerySetSubclass qs) = False"
| "type_is_QuerySet NotAQuerySet = False"

section \<open>Read adapter\<close>

record django_view =
  view_model :: py_model_arg
  view_queryset :: py_queryset_arg
  view_fields :: "string list option"

text \<open>
  \<^verbatim>\<open>fromdjango\<close>: the two assertions in the source's order, then the view.
\<close>

definition fromdjango ::
  "py_model_arg \<Rightarrow> py_queryset_arg \<Rightarrow> string list option \<Rightarrow> error + django_view" where
  "fromdjango model queryset fields_arg =
     (if \<not> type_is_QuerySet queryset
      then Inl (AssertionError ''Must be supplied a Django QuerySet'')
      else (case model of
              NotAClass \<Rightarrow> Inl TypeError
            | OtherClass \<Rightarrow> Inl (AssertionError ''Must be supplied a valid Django model class'')
            | ModelClass M \<Rightarrow>
                Inr \<lparr>view_model = model, view_queryset = queryset, view_fields = fields_arg\<rparr>))"

definition get_model_field_names :: "model_class \<Rightarrow> string list" where
  "get_model_field_names model = field_names model"

text \<open>The value a record holds for a field (\<open>VNone\<close> for a field with no value).\<close>

definition field_value :: "model_instance \<Rightarrow> string \<Rightarrow> val" where
  "field_value r n = (case map_of (attrs r) n of Some v \<Rightarrow> v | None \<Rightarrow> VNone)"

text \<open>
  \<^verbatim>\<open>queryset.all().values_list(*names)\<close>, as the ORM documents it: with no field name it
  returns every field of the queryset's model in declaration order; a name that is not a
  field of that model raises \<^verbatim>\<open>FieldError\<close>; otherwise one tuple per record, in the
  queryset's order, holding the named fields' values. Names that are not field names but
  that the ORM resolves (the alias \<^verbatim>\<open>pk\<close>, lookups across relations, annotations) are
  not represented.
\<close>

definition values_list :: "queryset \<Rightarrow> string list \<Rightarrow> error + val list list" where
  "values_list qs names =
     (let selected = (if names = [] then field_names (qs_model qs) else names)
      in if list_all (\<lambda>n. n \<in> set (field_names (qs_model qs))) selected
         then Inr (map (\<lambda>r. map (field_value r) selected) (qs_records qs))
         else Inl FieldError)"

text \<open>
  \<^verbatim>\<open>_iter_django_model\<close> is a generator: it yields the header, then the rows of
  \<^verbatim>\<open>values_list\<close>, or raises what \<^verbatim>\<open>values_list\<close> raises once the header has been
  consumed. The result is the header paired with the rows or the error.
\<close>

definition iter_django_model ::
  "model_class \<Rightarrow> queryset \<Rightarrow> string list option \<Rightarrow> string list \<times> (error + val list list)" where
  "iter_django_model model queryset fields_arg =
     (let column_names = (case fields_arg of None \<Rightarrow> get_model_field_names model | Some fs \<Rightarrow> fs)
      in (column_names, values_list queryset column_names))"

text \<open>
  \<^verbatim>\<open>DjangoView.__iter__\<close>. A view is only built by \<^verbatim>\<open>fromdjango\<close>, whose assertions
  leave a model class and a queryset in it; the other cases cannot be iterated.
\<close>

definition iter_view :: "django_view \<Rightarrow> error + string list \<times> (error + val list list)" where
  "iter_view v =
     (case (view_model v, view_queryset v) of
        (ModelClass M, QuerySet qs) \<Rightarrow> Inr (iter_django_model M qs (view_fields v))
      | _ \<Rightarrow> Inl TypeError)"

section \<open>Storage layer\<close>

text \<open>
  The ORM is not part of the repository: the write adapter is parameterised by it.
  \<open>orm_all\<close> is \<^verbatim>\<open>model.objects.all()\<close>, \<open>orm_save\<close> is \<^verbatim>\<open>instance.save()\<close>,
  \<open>orm_bulk_create\<close> is \<^verbatim>\<open>model.objects.bulk_create(chunk)\<close> and \<open>orm_construct\<close> is
  \<^verbatim>\<open>model(**value_map)\<close>. Each storage call either raises or gives the new storage state.
\<close>

record 'db orm =
  orm_all :: "model_class \<Rightarrow> 'db \<Rightarrow> exn + model_instance list"
  orm_save :: "model_instance \<Rightarrow> 'db \<Rightarrow> exn + 'db"
  orm_bulk_create :: "model_class \<Rightarrow> model_instance list \<Rightarrow> 'db \<Rightarrow> exn + 'db"
  orm_construct :: "model_class \<Rightarrow> value_map \<Rightarrow> error + model_instance"

text \<open>The storage calls a run issues, in order, whether they succeed or raise.\<close>

datatype orm_call =
    CallAll model_class
  | CallSave model_instance
  | CallBulkCreate "model_instance list"

record 'db world =
  db :: 'db
  calls :: "orm_call list"

definition objects_all ::
  "'db orm \<Rightarrow> model_class \<Rightarrow> 'db world \<Rightarrow> (exn + model_instance list) \<times> 'db world" where
  "objects_all orm model w =
     (orm_all orm model (db w), w\<lparr>calls := calls w @ [CallAll model]\<rparr>)"

definition save :: "'db orm \<Rightarrow> model_instance \<Rightarrow> 'db world \<Rightarrow> (exn + unit) \<times> 'db world" where
  "save orm obj w =
     (case orm_save orm obj (db w) of
        Inl e \<Rightarrow> (Inl e, w\<lparr>calls := calls w @ [CallSave obj]\<rparr>)
      | Inr d \<Rightarrow> (Inr (), \<lparr>db = d, calls = calls w @ [CallSave obj]\<rparr>))"

definition bulk_create ::
  "'db orm \<Rightarrow> model_class \<Rightarrow> model_instance list \<Rightarrow> 'db world \<Rightarrow> (exn + unit) \<times> 'db world" where
  "bulk_create orm model chunk w =
     (case orm_bulk_create orm model chunk (db w) of
        Inl e \<Rightarrow> (Inl e, w\<lparr>calls := calls w @ [CallBulkCreate chunk]\<rparr>)
      | Inr d \<Rightarrow> (Inr (), \<lparr>db = d, calls = calls w @ [CallBulkCreate chunk]\<rparr>))"

section \<open>Attribute access\<close>

text \<open>
  The property \<^verbatim>\<open>pk\<close> of \<^verbatim>\<open>Model\<close>: it reads and writes the attribute of the
  primary-key field.
\<close>

definition pk_property :: "string \<Rightarrow> descriptor" where
  "pk_property attname =
     \<lparr>desc_get = (\<lambda>a. case map_of a attname of
                           None \<Rightarrow> Inl RaiseAttributeError | Some v \<Rightarrow> Inr v),
      desc_set = (\<lambda>v a. Inr (AList.update attname v a))\<rparr>"

text \<open>A property without a setter, given its getter.\<close>

definition read_only_property ::
  "((string \<times> val) list \<Rightarrow> descriptor_error + val) \<Rightarrow> descriptor" where
  "read_only_property getter =
     \<lparr>desc_get = getter, desc_set = (\<lambda>v a. Inl RaiseAttributeError)\<rparr>"

text \<open>The data descriptor a class has for a name, if any.\<close>

definition class_descriptor :: "model_class \<Rightarrow> string \<Rightarrow> descriptor option" where
  "class_descriptor cls name =
     (if name = ''pk'' then Some (pk_property (pk_name cls)) else map_of (descriptors cls) name)"

text \<open>A name the class has no data descriptor for: an ordinary attribute of its instances.\<close>

definition plain_name :: "model_class \<Rightarrow> string \<Rightarrow> bool" where
  "plain_name cls name \<longleftrightarrow> class_descriptor cls name = None"

text \<open>
  \<^verbatim>\<open>getattr(obj, name)\<close> and \<^verbatim>\<open>setattr(obj, name, v)\<close>. A data descriptor of the class
  takes precedence over the attributes of the instance. Without one, \<^verbatim>\<open>getattr\<close> reads
  the instance's attribute and raises \<^verbatim>\<open>AttributeError\<close> when there is none, and
  \<^verbatim>\<open>setattr\<close> stores the attribute, creating it when the instance did not have it: a
  model instance is an ordinary Python object. Methods and other class attributes that are
  not data descriptors are not represented.
\<close>

definition getattr :: "model_instance \<Rightarrow> string \<Rightarrow> error + val" where
  "getattr obj name =
     (case class_descriptor (inst_class obj) name of
        Some d \<Rightarrow> (case desc_get d (attrs obj) of Inl e \<Rightarrow> Inl (raised e) | Inr v \<Rightarrow> Inr v)
      | None \<Rightarrow>
          (case map_of (attrs obj) name of None \<Rightarrow> Inl AttributeError | Some v \<Rightarrow> Inr v))"

definition setattr :: "model_instance \<Rightarrow> string \<Rightarrow> val \<Rightarrow> error + model_instance" where
  "setattr obj name v =
     (case class_descriptor (inst_class obj) name of
        Some d \<Rightarrow>
          (case desc_set d v (attrs obj) of
             Inl e \<Rightarrow> Inl (raised e)
           | Inr a \<Rightarrow> Inr (obj\<lparr>attrs := a\<rparr>))
      | None \<Rightarrow> Inr (obj\<lparr>attrs := AList.update name v (attrs obj)\<rparr>))"

fun will_model_change :: "value_map \<Rightarrow> model_instance \<Rightarrow> error + bool" where
  "will_model_change [] django_model_instance = Inr False"
| "will_model_change ((model_attr, v) # rest) django_model_instance =
     (case getattr django_model_instance model_attr of
        Inl e \<Rightarrow> Inl e
      | Inr a \<Rightarrow> if \<not> a = v then Inr True else will_model_change rest django_model_instance)"

definition unable_msg :: "string \<Rightarrow> string \<Rightarrow> string" where
  "unable_msg k mname = ''Field '' @ k @ '' not present in model '' @ mname"

text \<open>
  \<^verbatim>\<open>_apply_value_map\<close> mutates the instance and returns it: the model returns the
  instance's new state.
\<close>

fun apply_value_map :: "value_map \<Rightarrow> model_instance \<Rightarrow> error + model_instance" where
  "apply_value_map [] django_model_instance = Inr django_model_instance"
| "apply_value_map ((k, v) # rest) django_model_instance =
     (case setattr django_model_instance k v of
        Inl e \<Rightarrow>
          (if e = AttributeError
           then Inl (UnableToApplyValueMapError
                       (unable_msg k (model_name (inst_class django_model_instance))))
           else Inl e)
      | Inr obj \<Rightarrow> apply_value_map rest obj)"

text \<open>
  The attribute dictionary after \<^verbatim>\<open>setattr\<close> has stored every item of a value map, in
  the map's order.
\<close>

fun apply_all :: "value_map \<Rightarrow> (string \<times> val) list \<Rightarrow> (string \<times> val) list" where
  "apply_all [] al = al"
| "apply_all ((k, v) # vm) al = apply_all vm (AList.update k v al)"

section \<open>Bulk-insert chunker\<close>

definition DEFAULTS :: "(string \<times> int) list" where
  "DEFAULTS = [(''BULK_CREATE_CHUNK_SIZE'', 50)]"

text \<open>
  \<^verbatim>\<open>getattr(settings, name, DEFAULTS[name])\<close>: the default is looked up first (a name
  without a default raises \<^verbatim>\<open>KeyError\<close>), then the Django settings, given as the
  association list of the settings that are set.
\<close>

definition get_setting :: "(string \<times> int) list \<Rightarrow> string \<Rightarrow> error + int" where
  "get_setting settings name =
     (case map_of DEFAULTS name of
        None \<Rightarrow> Inl KeyError
      | Some d \<Rightarrow> Inr (case map_of settings name of Some v \<Rightarrow> v | None \<Rightarrow> d))"

text \<open>
  \<^verbatim>\<open>range(0, n, step)\<close>: \<^verbatim>\<open>ValueError\<close> for step 0, empty for a negative step, and
  the multiples of the step below \<open>n\<close> otherwise.
\<close>

definition py_range :: "nat \<Rightarrow> int \<Rightarrow> error + nat list" where
  "py_range n step =
     (if step = 0 then Inl ValueError
      else if step < 0 then Inr []
      else Inr (map (\<lambda>j. j * nat step) [0 ..< (n + nat step - 1) div nat step]))"

text \<open>The slice \<^verbatim>\<open>unsaved_models[i:i + chunk_size]\<close> for \<open>0 \<le> i\<close> and \<open>0 \<le> chunk_size\<close>.\<close>

definition slice :: "'a list \<Rightarrow> nat \<Rightarrow> nat \<Rightarrow> 'a list" where
  "slice xs i chunk_size = take chunk_size (drop i xs)"

text \<open>The body of the \<^verbatim>\<open>for\<close> loop of \<^verbatim>\<open>_chunked_bulk_create\<close>, over the start indices.\<close>

fun bulk_create_chunks ::
  "'db orm \<Rightarrow> model_class \<Rightarrow> model_instance list \<Rightarrow> nat \<Rightarrow> nat list \<Rightarrow> 'db world
     \<Rightarrow> (error + unit) \<times> 'db world" where
  "bulk_create_chunks orm model unsaved chunk_size [] w = (Inr (), w)"
| "bulk_create_chunks orm model unsaved chunk_size (i # starts) w =
     (case bulk_create orm model (slice unsaved i chunk_size) w of
        (Inl e, w') \<Rightarrow>
          (Inl (Raised (e\<lparr>petl_chunk_data := Some (slice unsaved i chunk_size)\<rparr>)), w')
      | (Inr u, w') \<Rightarrow> bulk_create_chunks orm model unsaved chunk_size starts w')"

definition chunked_bulk_create ::
  "'db orm \<Rightarrow> (string \<times> int) list \<Rightarrow> model_class \<Rightarrow> model_instance list \<Rightarrow> int option
     \<Rightarrow> 'db world \<Rightarrow> (error + unit) \<times> 'db world" where
  "chunked_bulk_create orm settings django_model_object unsaved chunk_size_arg w =
     (case (case chunk_size_arg of
              None \<Rightarrow> get_setting settings ''BULK_CREATE_CHUNK_SIZE''
            | Some c \<Rightarrow> Inr c) of
        Inl e \<Rightarrow> (Inl e, w)
      | Inr chunk_size \<Rightarrow>
          (case py_range (length unsaved) chunk_size of
             Inl e \<Rightarrow> (Inl e, w)
           | Inr starts \<Rightarrow>
               bulk_create_chunks orm django_model_object unsaved (nat chunk_size) starts w))"

text \<open>
  The chunks the specification describes: the list cut into contiguous pieces of
  \<open>c\<close> elements, the last one possibly shorter.
\<close>

definition chunks_of :: "nat \<Rightarrow> 'a list \<Rightarrow> 'a list list" where
  "chunks_of c xs = map (\<lambda>j. slice xs (j * c) c) [0 ..< (length xs + c - 1) div c]"

section \<open>Write adapter\<close>

text \<open>
  A table, as \<^verbatim>\<open>todjango\<close> consumes it: \<open>legacy_next\<close> says whether the object returned by
  \<^verbatim>\<open>iter(table)\<close> has a method called \<^verbatim>\<open>next\<close> beside the \<^verbatim>\<open>__next__\<close> of the iterator
  protocol (generators and the built-in iterators of Python 3 do not); \<open>table_rows\<close> is the
  header row with the data rows, or \<open>None\<close> for a table that yields no row at all.
\<close>

record table =
  legacy_next :: bool
  table_rows :: "(string list \<times> val list list) option"

text \<open>The local variables the row loop of \<^verbatim>\<open>todjango\<close> updates.\<close>

record loop_state =
  existing_model_map :: "(val \<times> model_instance) list"
  updated_model_count :: nat
  unsaved_models :: "model_instance list"

text \<open>\<^verbatim>\<open>value_map.get(name, None)\<close>.\<close>

definition dict_get :: "value_map \<Rightarrow> string \<Rightarrow> val" where
  "dict_get value_map name = (case map_of value_map name of Some v \<Rightarrow> v | None \<Rightarrow> VNone)"

text \<open>\<^verbatim>\<open>m.pk\<close>: the value of the primary-key field of the instance's class.\<close>

definition inst_pk :: "model_instance \<Rightarrow> val" where
  "inst_pk m = field_value m (pk_name (inst_class m))"

definition get_django_objects ::
  "'db orm \<Rightarrow> model_class \<Rightarrow> 'db world \<Rightarrow> (exn + model_instance list) \<times> 'db world" where
  "get_django_objects orm model w = objects_all orm model w"

text \<open>
  One iteration of \<^verbatim>\<open>for row in table_iterator\<close>. The instance found in
  \<open>existing_model_map\<close> is mutated in place by \<^verbatim>\<open>_apply_value_map\<close>: the map keeps its new
  state. An exception ends the run, so no loop state is returned with it.
\<close>

definition todjango_row ::
  "'db orm \<Rightarrow> model_class \<Rightarrow> bool \<Rightarrow> bool \<Rightarrow> string list \<Rightarrow> val list \<Rightarrow> loop_state
     \<Rightarrow> 'db world \<Rightarrow> (error + loop_state) \<times> 'db world" where
  "todjango_row orm model update use_bulk_create table_headers row st w =
     (let value_map = AList.updates table_headers row [];
          pk = dict_get value_map (pk_name model)
      in if update \<and> map_of (existing_model_map st) pk \<noteq> None
         then
           (case map_of (existing_model_map st) pk of
              None \<Rightarrow> (Inl KeyError, w)
            | Some django_object \<Rightarrow>
                (case will_model_change value_map django_object of
                   Inl e \<Rightarrow> (Inl e, w)
                 | Inr False \<Rightarrow> (Inr st, w)
                 | Inr True \<Rightarrow>
                     (case apply_value_map value_map django_object of
                        Inl e \<Rightarrow> (Inl e, w)
                      | Inr obj \<Rightarrow>
                          (case save orm obj w of
                             (Inl e, w1) \<Rightarrow>
                               (Inl (Raised (e\<lparr>petl_data := Some value_map\<rparr>)), w1)
                           | (Inr u, w1) \<Rightarrow>
                               (Inr (st\<lparr>existing_model_map :=
                                           AList.update pk obj (existing_model_map st),
                                         updated_model_count :=
                                           updated_model_count st + 1\<rparr>), w1)))))
         else
           (case orm_construct orm model value_map of
              Inl e \<Rightarrow> (Inl e, w)
            | Inr django_object \<Rightarrow>
                if use_bulk_create
                then (Inr (st\<lparr>unsaved_models := unsaved_models st @ [django_object]\<rparr>), w)
                else (case save orm django_object w of
                        (Inl e, w1) \<Rightarrow> (Inl (Raised (e\<lparr>petl_data := Some value_map\<rparr>)), w1)
                      | (Inr u, w1) \<Rightarrow> (Inr st, w1))))"

fun todjango_rows ::
  "'db orm \<Rightarrow> model_class \<Rightarrow> bool \<Rightarrow> bool \<Rightarrow> string list \<Rightarrow> val list list \<Rightarrow> loop_state
     \<Rightarrow> 'db world \<Rightarrow> (error + loop_state) \<times> 'db world" where
  "todjango_rows orm model update use_bulk_create table_headers [] st w = (Inr st, w)"
| "todjango_rows orm model update use_bulk_create table_headers (row # rows) st w =
     (case todjango_row orm model update use_bulk_create table_headers row st w of
        (Inl e, w1) \<Rightarrow> (Inl e, w1)
      | (Inr st1, w1) \<Rightarrow>
          todjango_rows orm model update use_bulk_create table_headers rows st1 w1)"

definition pk_assert_msg :: "string \<Rightarrow> string" where
  "pk_assert_msg pk =
     ''To update existing models the data must include the Django primary key field '' @ pk"

text \<open>
  The first part of \<^verbatim>\<open>todjango\<close> after the header has been read: when \<open>update\<close> is set,
  the primary-key assertion and the load of the existing instances into a dictionary keyed
  by primary key; the empty dictionary otherwise.
\<close>

definition load_existing ::
  "'db orm \<Rightarrow> model_class \<Rightarrow> bool \<Rightarrow> 'db world
     \<Rightarrow> (error + (val \<times> model_instance) list) \<times> 'db world" where
  "load_existing orm model update w =
     (let model_pk_field_name = pk_name model;
          model_field_names = get_model_field_names model
      in if update
         then if model_pk_field_name \<in> set model_field_names
              then (case get_django_objects orm model w of
                      (Inl e, w1) \<Rightarrow> (Inl (Raised e), w1)
                    | (Inr existing_models, w1) \<Rightarrow>
                        (Inr (AList.updates (map inst_pk existing_models) existing_models []),
                         w1))
              else (Inl (AssertionError (pk_assert_msg model_pk_field_name)), w)
         else (Inr [], w))"

text \<open>
  The rest of \<^verbatim>\<open>todjango\<close>: the row loop, then the bulk insert. The result is the pair
  of counts the run logs: \<open>updated_model_count\<close> and \<^verbatim>\<open>len(unsaved_models)\<close>.
\<close>

definition todjango_body ::
  "'db orm \<Rightarrow> (string \<times> int) list \<Rightarrow> model_class \<Rightarrow> bool \<Rightarrow> bool \<Rightarrow> string list
     \<Rightarrow> val list list \<Rightarrow> 'db world \<Rightarrow> (error + nat \<times> nat) \<times> 'db world" where
  "todjango_body orm settings model update use_bulk_create table_headers rows w =
     (case load_existing orm model update w of
        (Inl e, w1) \<Rightarrow> (Inl e, w1)
      | (Inr existing, w1) \<Rightarrow>
          (case todjango_rows orm model update use_bulk_create table_headers rows
                  \<lparr>existing_model_map = existing, updated_model_count = 0,
                   unsaved_models = []\<rparr> w1 of
             (Inl e, w2) \<Rightarrow> (Inl e, w2)
           | (Inr st, w2) \<Rightarrow>
               (case (if use_bulk_create
                      then chunked_bulk_create orm settings model (unsaved_models st) None w2
                      else (Inr (), w2)) of
                  (Inl e, w3) \<Rightarrow> (Inl e, w3)
                | (Inr u, w3) \<Rightarrow>
                    (Inr (updated_model_count st, length (unsaved_models st)), w3))))"

text \<open>
  \<^verbatim>\<open>todjango\<close>. The \<open>create\<close> argument is accepted and never read, as in the source.
  \<^verbatim>\<open>table_iterator.next()\<close> is an attribute lookup followed by a call: it raises
  \<^verbatim>\<open>AttributeError\<close> when the iterator has no \<^verbatim>\<open>next\<close> method, and
  \<^verbatim>\<open>StopIteration\<close> when the table has no header row.
\<close>

definition todjango ::
  "'db orm \<Rightarrow> (string \<times> int) list \<Rightarrow> table \<Rightarrow> py_model_arg \<Rightarrow> bool \<Rightarrow> bool \<Rightarrow> bool
     \<Rightarrow> 'db world \<Rightarrow> (error + nat \<times> nat) \<times> 'db world" where
  "todjango orm settings tbl model update create use_bulk_create w =
     (case model of
        NotAClass \<Rightarrow> (Inl TypeError, w)
      | OtherClass \<Rightarrow> (Inl (AssertionError ''Must be supplied a valid Django model class''), w)
      | ModelClass M \<Rightarrow>
          if \<not> legacy_next tbl then (Inl AttributeError, w)
          else (case table_rows tbl of
                  None \<Rightarrow> (Inl StopIteration, w)
                | Some (table_headers, rows) \<Rightarrow>
                    todjango_body orm settings M update use_bulk_create table_headers rows w))"

section \<open>A reference storage and example data\<close>

text \<open>
  A storage held in memory as the list of its records, used to run the adapter on concrete
  inputs. Saving an instance that has a primary key replaces the record with that key, or
  adds the instance when there is none; saving an instance without a primary key adds it
  under a new key. A bulk insert adds each instance, under a new key when it has none, and
  is refused as a whole when one of the keys is already stored. Instances are kept as they
  are saved.
\<close>

definition mem_all :: "model_class \<Rightarrow> model_instance list \<Rightarrow> exn + model_instance list" where
  "mem_all model d = Inr d"

definition db_error :: exn where
  "db_error = \<lparr>exn_type = ''IntegrityError'', petl_data = None, petl_chunk_data = None\<rparr>"

text \<open>The next key of the sequence: above every integer key stored.\<close>

fun next_id :: "model_instance list \<Rightarrow> int" where
  "next_id [] = 1"
| "next_id (m # d) = (case inst_pk m of VInt i \<Rightarrow> max (i + 1) (next_id d) | _ \<Rightarrow> next_id d)"

definition assign_key :: "model_instance list \<Rightarrow> model_instance \<Rightarrow> model_instance" where
  "assign_key d obj =
     obj\<lparr>attrs := AList.update (pk_name (inst_class obj)) (VInt (next_id d)) (attrs obj)\<rparr>"

definition replace_pk :: "model_instance \<Rightarrow> model_instance list \<Rightarrow> model_instance list" where
  "replace_pk obj d = map (\<lambda>m. if inst_pk m = inst_pk obj then obj else m) d"

definition mem_save :: "model_instance \<Rightarrow> model_instance list \<Rightarrow> exn + model_instance list" where
  "mem_save obj d =
     Inr (if inst_pk obj = VNone then d @ [assign_key d obj]
          else if inst_pk obj \<in> set (map inst_pk d) then replace_pk obj d
          else d @ [obj])"

fun mem_insert_all :: "model_instance list \<Rightarrow> model_instance list \<Rightarrow> exn + model_instance list" where
  "mem_insert_all [] d = Inr d"
| "mem_insert_all (u # us) d =
     (if inst_pk u = VNone then mem_insert_all us (d @ [assign_key d u])
      else if inst_pk u \<in> set (map inst_pk d) then Inl db_error
      else mem_insert_all us (d @ [u]))"

definition mem_bulk_create ::
  "model_class \<Rightarrow> model_instance list \<Rightarrow> model_instance list \<Rightarrow> exn + model_instance list" where
  "mem_bulk_create model chunk d = mem_insert_all chunk d"

text \<open>
  \<^verbatim>\<open>model(**value_map)\<close>, as \<^verbatim>\<open>Model.__init__\<close> does it: every field takes the value of
  its keyword, or \<open>VNone\<close> without one; then each remaining keyword that names a property
  or another data descriptor of the class (\<^verbatim>\<open>pk\<close> among them) is assigned with
  \<^verbatim>\<open>setattr\<close>, which may raise; a keyword that is neither raises \<^verbatim>\<open>TypeError\<close>.
\<close>

fun set_properties :: "value_map \<Rightarrow> model_instance \<Rightarrow> error + model_instance" where
  "set_properties [] obj = Inr obj"
| "set_properties ((k, v) # kvs) obj =
     (case setattr obj k v of Inl e \<Rightarrow> Inl e | Inr obj1 \<Rightarrow> set_properties kvs obj1)"

definition mem_construct :: "model_class \<Rightarrow> value_map \<Rightarrow> error + model_instance" where
  "mem_construct model value_map =
     (case set_properties
             (filter (\<lambda>(k, v). k \<notin> set (field_names model) \<and> \<not> plain_name model k) value_map)
             \<lparr>inst_class = model,
              attrs = map (\<lambda>f. (f, dict_get value_map f)) (field_names model)\<rparr> of
        Inl e \<Rightarrow> Inl e
      | Inr obj \<Rightarrow>
          if list_all (\<lambda>k. k \<in> set (field_names model) \<or> \<not> plain_name model k)
               (map fst value_map)
          then Inr obj
          else Inl TypeError)"

definition mem_orm :: "(model_instance list) orm" where
  "mem_orm = \<lparr>orm_all = mem_all, orm_save = mem_save, orm_bulk_create = mem_bulk_create,
              orm_construct = mem_construct\<rparr>"

text \<open>The same storage with every \<^verbatim>\<open>save\<close> and \<^verbatim>\<open>bulk_create\<close> raising \<open>e\<close>.\<close>

definition failing_orm :: "exn \<Rightarrow> (model_instance list) orm" where
  "failing_orm e = \<lparr>orm_all = mem_all, orm_save = (\<lambda>obj d. Inl e),
                    orm_bulk_create = (\<lambda>model chunk d. Inl e), orm_construct = mem_construct\<rparr>"

text \<open>The scenario of the specification: the model \<open>Person(id, name, age)\<close>.\<close>

definition Person :: model_class where
  "Person = \<lparr>field_names = [''id'', ''name'', ''age''], pk_name = ''id'',
             label = ''people.Person'', model_name = ''person'', descriptors = []\<rparr>"

definition person :: "int \<Rightarrow> string \<Rightarrow> int \<Rightarrow> model_instance" where
  "person i n a =
     \<lparr>inst_class = Person, attrs = [(''id'', VInt i), (''name'', VStr n), (''age'', VInt a)]\<rparr>"

definition people :: queryset where
  "people = \<lparr>qs_model = Person, qs_records = [person 1 ''Alice'' 30, person 2 ''Bob'' 25]\<rparr>"

definition world0 :: "(model_instance list) world" where
  "world0 = \<lparr>db = [person 1 ''Alice'' 30], calls = []\<rparr>"

text \<open>A table whose iterator is a Python 3 generator, and the same rows behind an iterator
  that also has a \<^verbatim>\<open>next\<close> method.\<close>

definition scenario_rows :: "string list \<times> val list list" where
  "scenario_rows =
     ([''id'', ''name'', ''age''],
      [[VInt 1, VStr ''Alice'', VInt 31], [VInt 2, VStr ''Bob'', VInt 25]])"

definition generator_table :: table where
  "generator_table = \<lparr>legacy_next = False, table_rows = Some scenario_rows\<rparr>"

definition legacy_table :: "string list \<times> val list list \<Rightarrow> table" where
  "legacy_table rows = \<lparr>legacy_next = True, table_rows = Some rows\<rparr>"

text \<open>
  A model whose class defines a read-only property \<open>display\<close>, computed from the field
  \<open>code\<close>.
\<close>

definition badge_display :: "(string \<times> val) list \<Rightarrow> descriptor_error + val" where
  "badge_display a =
     (case map_of a ''code'' of
        Some (VStr c) \<Rightarrow> Inr (VStr (''Badge '' @ c))
      | _ \<Rightarrow> Inl RaiseAttributeError)"

definition Badge :: model_class where
  "Badge = \<lparr>field_names = [''id'', ''code''], pk_name = ''id'', label = ''people.Badge'',
            model_name = ''badge'',
            descriptors = [(''display'', read_only_property badge_display)]\<rparr>"

definition badge :: "int \<Rightarrow> string \<Rightarrow> model_instance" where
  "badge i c = \<lparr>inst_class = Badge, attrs = [(''id'', VInt i), (''code'', VStr c)]\<rparr>"

definition three_people :: "model_instance list" where
  "three_people = [person 2 ''Bob'' 25, person 3 ''Carol'' 41, person 4 ''Dave'' 52]"

text \<open>A table of two rows whose primary keys are not in the storage.\<close>

definition new_rows :: "string list \<times> val list list" where
  "new_rows =
     ([''id'', ''name'', ''age''],
      [[VInt 2, VStr ''Bob'', VInt 25], [VInt 3, VStr ''Carol'', VInt 41]])"

text \<open>The value map and the primary key of a row, as \<^verbatim>\<open>todjango\<close> computes them.\<close>

definition row_vm :: "string list \<Rightarrow> val list \<Rightarrow> value_map" where
  "row_vm hdr row = AList.updates hdr row []"

definition row_pk :: "model_class \<Rightarrow> string list \<Rightarrow> val list \<Rightarrow> val" where
  "row_pk model hdr row = dict_get (row_vm hdr row) (pk_name model)"

text \<open>A table with two rows for the same primary key.\<close>

definition dup_rows :: "string list \<times> val list list" where
  "dup_rows =
     ([''id'', ''name'', ''age''],
      [[VInt 1, VStr ''Alice'', VInt 31], [VInt 1, VStr ''Alice'', VInt 32]])"

section \<open>A storage that keeps what is saved\<close>

text \<open>
  What running the adapter twice relies on, for a model: the records the storage holds
  for it, as \<^verbatim>\<open>model.objects.all()\<close> returns them.
\<close>

definition stored :: "'db orm \<Rightarrow> model_class \<Rightarrow> 'db \<Rightarrow> model_instance list" where
  "stored orm model d = (case orm_all orm model d of Inl e \<Rightarrow> [] | Inr ms \<Rightarrow> ms)"

text \<open>
  The records of a model in a database table: instances of the model, each with a
  primary key, no two with the same one.
\<close>

definition keys_ok :: "model_class \<Rightarrow> model_instance list \<Rightarrow> bool" where
  "keys_ok model ms \<longleftrightarrow>
     distinct (map inst_pk ms) \<and> VNone \<notin> inst_pk ` set ms \<and>
     (\<forall>m\<in>set ms. inst_class m = model)"

text \<open>A record that holds what an instance held when it was saved: its key and its fields.\<close>

definition agrees :: "model_class \<Rightarrow> model_instance \<Rightarrow> model_instance \<Rightarrow> bool" where
  "agrees model m obj \<longleftrightarrow>
     inst_pk m = inst_pk obj \<and>
     (\<forall>f\<in>set (field_names model). map_of (attrs m) f = map_of (attrs obj) f)"

text \<open>Every item of the value map is an attribute of the instance, with that value.\<close>

definition matches :: "value_map \<Rightarrow> model_instance \<Rightarrow> bool" where
  "matches vm m \<longleftrightarrow> (\<forall>(k, v)\<in>set vm. map_of (attrs m) k = Some v)"

text \<open>
  The behaviour assumed of the ORM for a model:
  \<^item> loading the records does not fail;
  \<^item> a \<^verbatim>\<open>save\<close> that succeeds leaves a well-keyed table; of an instance without primary
    key, it leaves every record as it was (it adds one under a new key); of an instance
    with a primary key, it leaves a record with that key holding the instance's fields,
    and every record with another key as it was;
  \<^item> a \<^verbatim>\<open>bulk_create\<close> that succeeds leaves a well-keyed table, every record as it was,
    and for each instance of the chunk that has a primary key a record with that key
    holding the instance's fields;
  \<^item> \<^verbatim>\<open>model(**value_map)\<close>, when it succeeds for keywords that are fields, gives an
    instance of the model that holds every keyword's value, its primary key being the
    keyword's value, or \<open>None\<close> without such a keyword.
\<close>

definition keeps_saved :: "'db orm \<Rightarrow> model_class \<Rightarrow> bool" where
  "keeps_saved orm model \<longleftrightarrow>
     (\<forall>d. \<exists>ms. orm_all orm model d = Inr ms) \<and>
     (\<forall>obj d d'.
        inst_class obj = model \<and> keys_ok model (stored orm model d) \<and>
        orm_save orm obj d = Inr d' \<longrightarrow>
        keys_ok model (stored orm model d') \<and>
        (if inst_pk obj = VNone
         then set (stored orm model d) \<subseteq> set (stored orm model d')
         else (\<exists>m\<in>set (stored orm model d'). agrees model m obj) \<and>
              (\<forall>m\<in>set (stored orm model d).
                 inst_pk m \<noteq> inst_pk obj \<longrightarrow> m \<in> set (stored orm model d')))) \<and>
     (\<forall>chunk d d'.
        (\<forall>u\<in>set chunk. inst_class u = model) \<and> keys_ok model (stored orm model d) \<and>
        orm_bulk_create orm model chunk d = Inr d' \<longrightarrow>
        keys_ok model (stored orm model d') \<and>
        set (stored orm model d) \<subseteq> set (stored orm model d') \<and>
        (\<forall>u\<in>set chunk. inst_pk u \<noteq> VNone \<longrightarrow>
           (\<exists>m\<in>set (stored orm model d'). agrees model m u))) \<and>
     (\<forall>vm obj.
        orm_construct orm model vm = Inr obj \<and> distinct (map fst vm) \<and>
        fst ` set vm \<subseteq> set (field_names model) \<longrightarrow>
        inst_class obj = model \<and> inst_pk obj = dict_get vm (pk_name model) \<and>
        matches vm obj)"

text \<open>
  The state of a run of \<^verbatim>\<open>todjango\<close> with \<open>update\<close> set, once the rows \<open>D\<close> have been
  processed: the table is well keyed; every instance of \<open>existing_model_map\<close> is
  filed under its primary key and has a record holding its fields; every row processed
  that has a primary key has, in the table or among the instances waiting for the bulk
  insert, an instance with that key that holds the row's values; and every row processed
  that has none was turned into an instance.
\<close>

definition run_inv ::
  "'db orm \<Rightarrow> model_class \<Rightarrow> string list \<Rightarrow> val list set \<Rightarrow> loop_state \<Rightarrow> 'db \<Rightarrow> bool" where
  "run_inv orm model hdr D st d \<longleftrightarrow>
     keys_ok model (stored orm model d) \<and>
     (\<forall>p m. map_of (existing_model_map st) p = Some m \<longrightarrow>
        p \<noteq> VNone \<and> inst_pk m = p \<and> inst_class m = model \<and>
        (\<exists>m'\<in>set (stored orm model d). agrees model m' m)) \<and>
     (\<forall>row\<in>D. row_pk model hdr row \<noteq> VNone \<longrightarrow>
        (\<exists>m\<in>set (stored orm model d) \<union> set (unsaved_models st).
           inst_pk m = row_pk model hdr row \<and> matches (row_vm hdr row) m)) \<and>
     (\<forall>u\<in>set (unsaved_models st). inst_class u = model) \<and>
     (\<forall>row\<in>D. row_pk model hdr row = VNone \<longrightarrow>
        (\<exists>obj. orm_construct orm model (row_vm hdr row) = Inr obj))"

section \<open>Properties of the read adapter\<close>

text \<open>
  C9, as amended. \<^verbatim>\<open>fromdjango\<close> fails its first assertion exactly when the type of the
  queryset argument is not \<^verbatim>\<open>QuerySet\<close> itself (an instance of a subclass of
  \<^verbatim>\<open>QuerySet\<close> is refused too); otherwise it fails its second assertion exactly when the
  model argument is a class that is not a model class, raises \<^verbatim>\<open>TypeError\<close> exactly when
  the model argument is not a class, and returns the view of its three arguments exactly
  when the model argument is a model class.
\<close>

theorem fromdjango_validation:
  "(fromdjango model queryset fields_arg =
      Inl (AssertionError ''Must be supplied a Django QuerySet'')) =
     (\<not> type_is_QuerySet queryset) \<and>
   (fromdjango model queryset fields_arg =
      Inl (AssertionError ''Must be supplied a valid Django model class'')) =
     (type_is_QuerySet queryset \<and> model = OtherClass) \<and>
   (fromdjango model queryset fields_arg = Inl TypeError) =
     (type_is_QuerySet queryset \<and> model = NotAClass) \<and>
   (fromdjango model queryset fields_arg =
      Inr \<lparr>view_model = model, view_queryset = queryset, view_fields = fields_arg\<rparr>) =
     (type_is_QuerySet queryset \<and> is_model_class model)"
  by (cases model; cases queryset) (simp_all add: fromdjango_def)

theorem fromdjango_validation_witness:
  "fromdjango (ModelClass Person) (QuerySet people) None =
     Inr \<lparr>view_model = ModelClass Person, view_queryset = QuerySet people, view_fields = None\<rparr>"
  using fromdjango_validation [of "ModelClass Person" "QuerySet people" None] by simp

text \<open>
  C9 as stated fails: an instance of a subclass of \<^verbatim>\<open>QuerySet\<close> is a queryset, and with a
  model class it is refused by the first assertion; and a model argument that is not a
  class raises \<^verbatim>\<open>TypeError\<close>, not an assertion.
\<close>

theorem fromdjango_validation_counterexample:
  "is_queryset (QuerySetSubclass people) \<and> is_model_class (ModelClass Person) \<and>
   fromdjango (ModelClass Person) (QuerySetSubclass people) None =
     Inl (AssertionError ''Must be supplied a Django QuerySet'') \<and>
   \<not> is_model_class NotAClass \<and>
   fromdjango NotAClass (QuerySet people) None = Inl TypeError"
  by (simp add: fromdjango_def)

text \<open>
  C1, as amended. Let the column names be the model's field names when \<open>fields\<close> is
  \<open>None\<close> and the supplied list otherwise. When they are not empty and are all fields of
  the queryset's model, \<^verbatim>\<open>fromdjango\<close> returns a view whose iteration yields the column
  names as header and then one row per record of the queryset, in the queryset's order,
  holding exactly the values of those columns.
\<close>

theorem fromdjango_iter:
  assumes "column_names = (case fields_arg of None \<Rightarrow> field_names M | Some fs \<Rightarrow> fs)"
    and "column_names \<noteq> []"
    and "set column_names \<subseteq> set (field_names (qs_model Q))"
  shows "\<exists>v. fromdjango (ModelClass M) (QuerySet Q) fields_arg = Inr v \<and>
             iter_view v =
               Inr (column_names,
                    Inr (map (\<lambda>r. map (field_value r) column_names) (qs_records Q)))"
  using assms
  by (auto simp: fromdjango_def iter_view_def iter_django_model_def values_list_def
        get_model_field_names_def list_all_iff Let_def subset_iff split: option.splits)

theorem fromdjango_iter_witness:
  "\<exists>v. fromdjango (ModelClass Person) (QuerySet people) (Some [''name'', ''id'']) = Inr v \<and>
       iter_view v =
         Inr ([''name'', ''id''], Inr [[VStr ''Alice'', VInt 1], [VStr ''Bob'', VInt 2]])"
  using fromdjango_iter [where column_names = "[''name'', ''id'']"
      and fields_arg = "Some [''name'', ''id'']" and M = Person and Q = people]
  by (simp add: people_def Person_def person_def field_value_def)

text \<open>
  C1 as stated fails. With \<open>fields = []\<close> the header is empty, and \<^verbatim>\<open>values_list()\<close>
  without a field name returns all the fields of each record, not the empty selection.
  With a name that is not a field of the queryset's model the iteration raises
  \<^verbatim>\<open>FieldError\<close> after the header instead of yielding rows.
\<close>

theorem fromdjango_iter_counterexample:
  "fromdjango (ModelClass Person) (QuerySet people) (Some []) =
     Inr \<lparr>view_model = ModelClass Person, view_queryset = QuerySet people,
          view_fields = Some []\<rparr> \<and>
   iter_view \<lparr>view_model = ModelClass Person, view_queryset = QuerySet people,
              view_fields = Some []\<rparr> =
     Inr ([], Inr [[VInt 1, VStr ''Alice'', VInt 30], [VInt 2, VStr ''Bob'', VInt 25]]) \<and>
   [[VInt 1, VStr ''Alice'', VInt 30], [VInt 2, VStr ''Bob'', VInt 25]] \<noteq>
     map (\<lambda>r. map (field_value r) []) (qs_records people) \<and>
   iter_view \<lparr>view_model = ModelClass Person, view_queryset = QuerySet people,
              view_fields = Some [''email'']\<rparr> =
     Inr ([''email''], Inl FieldError)"
  by (simp add: fromdjango_def iter_view_def iter_django_model_def values_list_def
        people_def Person_def person_def field_value_def)

section \<open>Properties of the write adapter\<close>

lemmas run_defs = todjango_def todjango_body_def load_existing_def get_django_objects_def
  objects_all_def todjango_row_def save_def bulk_create_def chunked_bulk_create_def
  get_setting_def DEFAULTS_def py_range_def slice_def dict_get_def inst_pk_def field_value_def
  getattr_def setattr_def class_descriptor_def plain_name_def pk_property_def
  get_model_field_names_def replace_pk_def assign_key_def
  mem_orm_def mem_all_def mem_save_def mem_bulk_create_def mem_construct_def
  Person_def person_def world0_def legacy_table_def unable_msg_def pk_assert_msg_def Let_def

text \<open>
  C2, as amended. When the model argument is a model class and the table's iterator has no
  \<^verbatim>\<open>next\<close> method, \<^verbatim>\<open>todjango\<close> raises \<^verbatim>\<open>AttributeError\<close> whatever its other
  arguments are, and the storage and the list of storage calls are what they were: no row
  has been processed and nothing has been loaded, saved or inserted.
\<close>

theorem todjango_no_next:
  assumes "\<not> legacy_next tbl"
  shows "todjango orm settings tbl (ModelClass M) update create use_bulk_create w =
           (Inl AttributeError, w)"
  using assms by (simp add: todjango_def)

theorem todjango_no_next_witness:
  "todjango mem_orm [] generator_table (ModelClass Person) True True True world0 =
     (Inl AttributeError, world0)"
  using todjango_no_next [where tbl = generator_table and orm = mem_orm and settings = "[]"
      and M = Person and update = True and create = True and use_bulk_create = True
      and w = world0]
  by (simp add: generator_table_def)

text \<open>
  C2 as stated fails for a call whose model argument is not a model class: the assertion
  on the model comes before the header is read, so the call raises \<^verbatim>\<open>AssertionError\<close>,
  not \<^verbatim>\<open>AttributeError\<close>.
\<close>

theorem todjango_no_next_counterexample:
  "\<not> legacy_next generator_table \<and>
   todjango mem_orm [] generator_table OtherClass True True True world0 =
     (Inl (AssertionError ''Must be supplied a valid Django model class''), world0)"
  by (simp add: todjango_def generator_table_def)

subsection \<open>Applying a value map\<close>

lemma apply_all_other:
  "n \<notin> fst ` set vm \<Longrightarrow> map_of (apply_all vm al) n = map_of al n"
  by (induction vm arbitrary: al) (auto simp: update_conv')

lemma apply_all_key:
  "distinct (map fst vm) \<Longrightarrow> (k, v) \<in> set vm \<Longrightarrow> map_of (apply_all vm al) k = Some v"
proof (induction vm arbitrary: al)
  case Nil
  then show ?case by simp
next
  case (Cons p vm)
  obtain k' v' where p: "p = (k', v')" by (cases p)
  show ?case
  proof (cases "(k, v) = p")
    case True
    with Cons.prems p have "k \<notin> fst ` set vm" by auto
    then have "map_of (apply_all vm (AList.update k v al)) k = map_of (AList.update k v al) k"
      by (rule apply_all_other)
    with True p show ?thesis by (auto simp: update_conv')
  next
    case False
    with Cons.prems have "(k, v) \<in> set vm" "distinct (map fst vm)" by auto
    then have "map_of (apply_all vm (AList.update k' v' al)) k = Some v"
      using Cons.IH by blast
    with p show ?thesis by simp
  qed
qed

lemma setattr_plain:
  "plain_name (inst_class obj) k \<Longrightarrow>
   setattr obj k v = Inr (obj\<lparr>attrs := AList.update k v (attrs obj)\<rparr>)"
  by (simp add: setattr_def plain_name_def)

lemma getattr_plain:
  "plain_name (inst_class obj) k \<Longrightarrow>
   getattr obj k = (case map_of (attrs obj) k of None \<Rightarrow> Inl AttributeError | Some v \<Rightarrow> Inr v)"
  by (simp add: getattr_def plain_name_def)

lemma setattr_class: "setattr obj k v = Inr obj1 \<Longrightarrow> inst_class obj1 = inst_class obj"
  by (auto simp: setattr_def split: option.splits sum.splits)

lemma apply_value_map_class:
  "apply_value_map vm obj = Inr obj1 \<Longrightarrow> inst_class obj1 = inst_class obj"
proof (induction vm arbitrary: obj)
  case Nil
  then show ?case by simp
next
  case (Cons p vm)
  obtain k v where p: "p = (k, v)" by (cases p)
  show ?case
  proof (cases "setattr obj k v")
    case (Inl e)
    with Cons.prems p show ?thesis by (simp split: if_splits)
  next
    case (Inr obj2)
    with Cons.prems p have "apply_value_map vm obj2 = Inr obj1" by simp
    from Cons.IH [OF this] setattr_class [OF Inr] show ?thesis by simp
  qed
qed

lemma apply_value_map_append:
  "apply_value_map (vm1 @ vm2) obj =
     (case apply_value_map vm1 obj of Inl e \<Rightarrow> Inl e | Inr obj1 \<Rightarrow> apply_value_map vm2 obj1)"
  by (induction vm1 arbitrary: obj) (auto split: sum.splits)

lemma apply_value_map_ok:
  "\<forall>k\<in>fst ` set vm. plain_name (inst_class obj) k \<Longrightarrow>
   apply_value_map vm obj = Inr (obj\<lparr>attrs := apply_all vm (attrs obj)\<rparr>)"
  by (induction vm arbitrary: obj) (auto simp: setattr_plain)

text \<open>
  C10, as amended. For a value map (a dictionary: its keys are distinct) whose keys are
  ordinary attribute names of the instance (the class has no property or other data
  descriptor under any of them, so none is \<^verbatim>\<open>pk\<close>), \<^verbatim>\<open>_apply_value_map\<close> returns the
  instance it was given, of the same class, in a state where every key of the value map
  reads as the mapped value and every attribute of the instance that the value map does
  not name is what it was (one the instance did not have is still absent). And whenever
  \<^verbatim>\<open>setattr\<close> raises \<^verbatim>\<open>AttributeError\<close> for an item, the items before it having been
  set, the call raises \<^verbatim>\<open>UnableToApplyValueMapError\<close> with the message that names that
  key and the model, whatever items follow.
\<close>

theorem apply_value_map_frame:
  "(distinct (map fst value_map) \<and>
    (\<forall>k\<in>fst ` set value_map. plain_name (inst_class obj) k) \<longrightarrow>
    (\<exists>obj'. apply_value_map value_map obj = Inr obj' \<and>
       inst_class obj' = inst_class obj \<and>
       (\<forall>k v. (k, v) \<in> set value_map \<longrightarrow> getattr obj' k = Inr v) \<and>
       (\<forall>n. n \<notin> fst ` set value_map \<longrightarrow> map_of (attrs obj') n = map_of (attrs obj) n))) \<and>
   (apply_value_map items_before obj = Inr obj1 \<and> setattr obj1 k v = Inl AttributeError \<longrightarrow>
    apply_value_map (items_before @ (k, v) # items_after) obj =
      Inl (UnableToApplyValueMapError (unable_msg k (model_name (inst_class obj)))))"
proof (intro conjI impI)
  assume h: "distinct (map fst value_map) \<and>
    (\<forall>k\<in>fst ` set value_map. plain_name (inst_class obj) k)"
  let ?obj' = "obj\<lparr>attrs := apply_all value_map (attrs obj)\<rparr>"
  from h have ok: "apply_value_map value_map obj = Inr ?obj'"
    by (simp add: apply_value_map_ok)
  have "getattr ?obj' k = Inr v" if "(k, v) \<in> set value_map" for k v
  proof -
    from that h have "plain_name (inst_class ?obj') k" by force
    moreover from that h have "map_of (attrs ?obj') k = Some v" by (simp add: apply_all_key)
    ultimately show ?thesis by (simp add: getattr_plain)
  qed
  moreover have "map_of (attrs ?obj') n = map_of (attrs obj) n"
    if "n \<notin> fst ` set value_map" for n
    using that by (simp add: apply_all_other)
  ultimately show "\<exists>obj'. apply_value_map value_map obj = Inr obj' \<and>
       inst_class obj' = inst_class obj \<and>
       (\<forall>k v. (k, v) \<in> set value_map \<longrightarrow> getattr obj' k = Inr v) \<and>
       (\<forall>n. n \<notin> fst ` set value_map \<longrightarrow> map_of (attrs obj') n = map_of (attrs obj) n)"
    using ok by (intro exI [of _ ?obj']) simp
next
  assume h: "apply_value_map items_before obj = Inr obj1 \<and> setattr obj1 k v = Inl AttributeError"
  then have "apply_value_map items_before obj = Inr obj1" by simp
  then have "inst_class obj1 = inst_class obj" by (rule apply_value_map_class)
  with h show "apply_value_map (items_before @ (k, v) # items_after) obj =
      Inl (UnableToApplyValueMapError (unable_msg k (model_name (inst_class obj))))"
    by (simp add: apply_value_map_append)
qed

theorem apply_value_map_frame_witness:
  "(\<exists>obj'. apply_value_map [(''age'', VInt 31)] (person 1 ''Alice'' 30) = Inr obj' \<and>
          inst_class obj' = Person \<and>
          getattr obj' ''age'' = Inr (VInt 31) \<and>
          map_of (attrs obj') ''name'' = Some (VStr ''Alice'') \<and>
          map_of (attrs obj') ''email'' = None) \<and>
   apply_value_map [(''code'', VStr ''B2'')] (badge 7 ''B1'') = Inr (badge 7 ''B2'') \<and>
   setattr (badge 7 ''B2'') ''display'' (VStr ''x'') = Inl AttributeError \<and>
   apply_value_map [(''code'', VStr ''B2'')] (badge 7 ''B1'') = Inr (badge 7 ''B2'') \<and>
   apply_value_map ([(''code'', VStr ''B2'')] @ (''display'', VStr ''x'') # [(''id'', VInt 8)])
     (badge 7 ''B1'') =
     Inl (UnableToApplyValueMapError ''Field display not present in model badge'')"
proof -
  note defs = person_def Person_def badge_def Badge_def plain_name_def class_descriptor_def
    setattr_def getattr_def read_only_property_def unable_msg_def
  have hyp: "distinct (map fst [(''age'', VInt 31)]) \<and>
      (\<forall>k\<in>fst ` set [(''age'', VInt 31)]. plain_name (inst_class (person 1 ''Alice'' 30)) k)"
    by (simp add: defs)
  from apply_value_map_frame [THEN conjunct1, rule_format, OF hyp]
  obtain obj' where ok: "apply_value_map [(''age'', VInt 31)] (person 1 ''Alice'' 30) = Inr obj'"
    and cls: "inst_class obj' = inst_class (person 1 ''Alice'' 30)"
    and set: "\<forall>k v. (k, v) \<in> set [(''age'', VInt 31)] \<longrightarrow> getattr obj' k = Inr v"
    and frame: "\<forall>n. n \<notin> fst ` set [(''age'', VInt 31)] \<longrightarrow>
                  map_of (attrs obj') n = map_of (attrs (person 1 ''Alice'' 30)) n"
    by blast
  from set have "getattr obj' ''age'' = Inr (VInt 31)" by simp
  moreover from frame have "map_of (attrs obj') ''name'' = Some (VStr ''Alice'')"
    by (simp add: person_def)
  moreover from frame have "map_of (attrs obj') ''email'' = None"
    by (simp add: person_def)
  ultimately have 1: "\<exists>obj'. apply_value_map [(''age'', VInt 31)] (person 1 ''Alice'' 30) = Inr obj' \<and>
          inst_class obj' = Person \<and>
          getattr obj' ''age'' = Inr (VInt 31) \<and>
          map_of (attrs obj') ''name'' = Some (VStr ''Alice'') \<and>
          map_of (attrs obj') ''email'' = None"
    using ok cls by (auto simp: person_def)
  have pre: "apply_value_map [(''code'', VStr ''B2'')] (badge 7 ''B1'') = Inr (badge 7 ''B2'')"
    by (simp add: defs)
  have rej: "setattr (badge 7 ''B2'') ''display'' (VStr ''x'') = Inl AttributeError"
    by (simp add: defs)
  from pre rej have hyp2: "apply_value_map [(''code'', VStr ''B2'')] (badge 7 ''B1'') =
      Inr (badge 7 ''B2'') \<and> setattr (badge 7 ''B2'') ''display'' (VStr ''x'') = Inl AttributeError"
    by simp
  from apply_value_map_frame [THEN conjunct2, rule_format, OF hyp2,
      where items_after = "[(''id'', VInt 8)]"]
  have 2: "apply_value_map ([(''code'', VStr ''B2'')] @ (''display'', VStr ''x'') # [(''id'', VInt 8)])
     (badge 7 ''B1'') =
     Inl (UnableToApplyValueMapError ''Field display not present in model badge'')"
    by (simp add: badge_def Badge_def unable_msg_def)
  from 1 pre rej 2 show ?thesis by blast
qed

text \<open>
  C10 as stated fails. A value map with the key \<^verbatim>\<open>pk\<close> is applied through the property
  of the class: the attribute \<open>id\<close>, which the value map does not name, is changed. And a
  value map with a key that \<^verbatim>\<open>setattr\<close> rejects makes the call raise and return no
  instance.
\<close>

theorem apply_value_map_frame_counterexample:
  "apply_value_map [(''pk'', VInt 5)] (person 1 ''Alice'' 30) = Inr (person 5 ''Alice'' 30) \<and>
   ''id'' \<notin> fst ` set [(''pk'', VInt 5)] \<and>
   map_of (attrs (person 5 ''Alice'' 30)) ''id'' \<noteq> map_of (attrs (person 1 ''Alice'' 30)) ''id'' \<and>
   apply_value_map [(''code'', VStr ''B2''), (''display'', VStr ''Badge B2'')] (badge 7 ''B1'') =
     Inl (UnableToApplyValueMapError ''Field display not present in model badge'')"
  by (simp add: person_def Person_def badge_def Badge_def setattr_def class_descriptor_def
        pk_property_def read_only_property_def unable_msg_def)

text \<open>
  C6 fails on the code. A key that is not a field of the model is not rejected by
  \<^verbatim>\<open>setattr\<close>: \<^verbatim>\<open>_apply_value_map\<close> stores it as a new attribute and returns the
  instance, and a run of \<^verbatim>\<open>todjango\<close> that reaches it on its update path saves the
  instance and ends without an error.
\<close>

theorem apply_value_map_unknown_field:
  "apply_value_map [(''nickname'', VStr ''Al'')] (person 1 ''Alice'' 30) =
     Inr \<lparr>inst_class = Person,
          attrs = [(''id'', VInt 1), (''name'', VStr ''Alice''), (''age'', VInt 30),
                   (''nickname'', VStr ''Al'')]\<rparr> \<and>
   fst (todjango mem_orm []
          (legacy_table ([''id'', ''name'', ''nickname''],
                         [[VInt 1, VStr ''Alicia'', VStr ''Al'']]))
          (ModelClass Person) True True True world0) = Inr (1, 0)"
  by (simp add: run_defs)

text \<open>
  C7 fails on the code. The assertion compares the primary-key name with the model's own
  field names, not with the table's header: a table without the primary-key column passes
  it under \<open>update = True\<close>, and its rows are created.
\<close>

theorem todjango_missing_pk_column:
  "todjango mem_orm [] (legacy_table ([''name'', ''age''], [[VStr ''Bob'', VInt 25]]))
     (ModelClass Person) True True True world0 =
   (Inr (0, 1),
    \<lparr>db = [person 1 ''Alice'' 30,
           \<lparr>inst_class = Person,
            attrs = [(''id'', VInt 2), (''name'', VStr ''Bob''), (''age'', VInt 25)]\<rparr>],
     calls = [CallAll Person,
              CallBulkCreate [\<lparr>inst_class = Person,
                attrs = [(''id'', VNone), (''name'', VStr ''Bob''), (''age'', VInt 25)]\<rparr>]]\<rparr>)"
  by (simp add: run_defs)

subsection \<open>Chunked bulk insert\<close>

lemma bulk_create_calls:
  "bulk_create orm model chunk w = (r, w') \<Longrightarrow> calls w' = calls w @ [CallBulkCreate chunk]"
  by (auto simp: bulk_create_def split: sum.splits)

lemma bulk_create_chunks_calls:
  "bulk_create_chunks orm model xs c starts w = (r, w') \<Longrightarrow>
   \<exists>k\<le>length starts.
     calls w' = calls w @ map (\<lambda>i. CallBulkCreate (slice xs i c)) (take k starts) \<and>
     (r = Inr () \<and> k = length starts \<or>
      (\<exists>e d. 0 < k \<and> orm_bulk_create orm model (slice xs (starts ! (k - 1)) c) d = Inl e \<and>
         r = Inl (Raised (e\<lparr>petl_chunk_data := Some (slice xs (starts ! (k - 1)) c)\<rparr>))))"
proof (induction starts arbitrary: w)
  case Nil
  then show ?case by auto
next
  case (Cons i starts)
  let ?call = "\<lambda>i. CallBulkCreate (slice xs i c)"
  obtain r1 w1 where b: "bulk_create orm model (slice xs i c) w = (r1, w1)"
    by (cases "bulk_create orm model (slice xs i c) w")
  then have c1: "calls w1 = calls w @ [?call i]"
    by (rule bulk_create_calls)
  show ?case
  proof (cases r1)
    case (Inl e)
    with b have refused: "orm_bulk_create orm model (slice xs i c) (db w) = Inl e"
      by (auto simp: bulk_create_def split: sum.splits)
    from Cons.prems b Inl have "w' = w1"
      "r = Inl (Raised (e\<lparr>petl_chunk_data := Some (slice xs i c)\<rparr>))" by auto
    with c1 refused have "calls w' = calls w @ map ?call (take 1 (i # starts)) \<and>
        (\<exists>e d. (0::nat) < 1 \<and>
           orm_bulk_create orm model (slice xs ((i # starts) ! (1 - 1)) c) d = Inl e \<and>
           r = Inl (Raised (e\<lparr>petl_chunk_data := Some (slice xs ((i # starts) ! (1 - 1)) c)\<rparr>)))"
      by auto
    then show ?thesis by (intro exI [of _ 1]) simp
  next
    case (Inr u)
    with Cons.prems b have "bulk_create_chunks orm model xs c starts w1 = (r, w')" by simp
    from Cons.IH [OF this] obtain k where k: "k \<le> length starts"
      "calls w' = calls w1 @ map ?call (take k starts)"
      "r = Inr () \<and> k = length starts \<or>
       (\<exists>e d. 0 < k \<and> orm_bulk_create orm model (slice xs (starts ! (k - 1)) c) d = Inl e \<and>
          r = Inl (Raised (e\<lparr>petl_chunk_data := Some (slice xs (starts ! (k - 1)) c)\<rparr>)))"
      by blast
    from k(2) c1 have calls': "calls w' = calls w @ map ?call (take (Suc k) (i # starts))"
      by simp
    from k(3) have "r = Inr () \<and> Suc k = length (i # starts) \<or>
       (\<exists>e d. 0 < Suc k \<and>
          orm_bulk_create orm model (slice xs ((i # starts) ! (Suc k - 1)) c) d = Inl e \<and>
          r = Inl (Raised (e\<lparr>petl_chunk_data :=
                              Some (slice xs ((i # starts) ! (Suc k - 1)) c)\<rparr>)))"
    proof
      assume "r = Inr () \<and> k = length starts"
      then show ?thesis by simp
    next
      assume "\<exists>e d. 0 < k \<and> orm_bulk_create orm model (slice xs (starts ! (k - 1)) c) d = Inl e \<and>
          r = Inl (Raised (e\<lparr>petl_chunk_data := Some (slice xs (starts ! (k - 1)) c)\<rparr>))"
      then obtain e d where "0 < k"
        "orm_bulk_create orm model (slice xs (starts ! (k - 1)) c) d = Inl e"
        "r = Inl (Raised (e\<lparr>petl_chunk_data := Some (slice xs (starts ! (k - 1)) c)\<rparr>))"
        by blast
      moreover from \<open>0 < k\<close> have "(i # starts) ! (Suc k - 1) = starts ! (k - 1)"
        by (cases k) simp_all
      ultimately show ?thesis by auto
    qed
    with k(1) calls' show ?thesis by (intro exI [of _ "Suc k"]) simp
  qed
qed

lemma concat_slices: "concat (map (\<lambda>j. slice xs (j * c) c) [0 ..< n]) = take (n * c) xs"
proof (induction n)
  case 0
  then show ?case by simp
next
  case (Suc n)
  have "take (n * c) xs @ take c (drop (n * c) xs) = take (n * c + c) xs"
    by (simp add: take_add)
  with Suc show ?case by (simp add: slice_def add.commute)
qed

lemma ceil_bounds:
  fixes c :: nat
  assumes "0 < c"
  shows "N \<le> (N + c - 1) div c * c" and "(N + c - 1) div c * c < N + c"
proof -
  let ?q = "(N + c - 1) div c" and ?r = "(N + c - 1) mod c"
  have eq: "?q * c + ?r = N + c - 1" by simp
  have "?r < c" using assms by simp
  with eq assms show "N \<le> ?q * c" by linarith
  from eq assms show "?q * c < N + c" by linarith
qed

lemma chunks_of_props:
  assumes "0 < c"
  shows "concat (chunks_of c xs) = xs"
    and "\<forall>ch\<in>set (chunks_of c xs). ch \<noteq> [] \<and> length ch \<le> c"
    and "length xs \<le> length (chunks_of c xs) * c"
    and "length (chunks_of c xs) * c < length xs + c"
proof -
  let ?n = "(length xs + c - 1) div c"
  note b = ceil_bounds [OF assms, of "length xs"]
  show "concat (chunks_of c xs) = xs"
    using b(1) by (simp add: chunks_of_def concat_slices)
  show "length xs \<le> length (chunks_of c xs) * c" using b(1) by (simp add: chunks_of_def)
  show "length (chunks_of c xs) * c < length xs + c" using b(2) by (simp add: chunks_of_def)
  show "\<forall>ch\<in>set (chunks_of c xs). ch \<noteq> [] \<and> length ch \<le> c"
  proof
    fix ch assume "ch \<in> set (chunks_of c xs)"
    then obtain j where j: "j < ?n" "ch = slice xs (j * c) c"
      by (auto simp: chunks_of_def)
    from j(1) have "Suc j \<le> ?n" by simp
    then have "Suc j * c \<le> ?n * c" by (rule mult_le_mono1)
    with b(2) have "j * c < length xs" by simp
    with j(2) assms show "ch \<noteq> [] \<and> length ch \<le> c" by (simp add: slice_def)
  qed
qed

text \<open>
  C3. Let \<open>C > 0\<close> be the chunk size: the explicit argument, or the configured setting, or
  50. The list of unsaved instances is the concatenation of \<open>ceil(N / C)\<close> non-empty
  contiguous slices of at most \<open>C\<close> instances (the \<open>j\<close>-th starts at index \<open>j * C\<close>), and
  \<^verbatim>\<open>_chunked_bulk_create\<close> issues one bulk-insert call per slice, in order. The calls it
  adds to the log are the first \<open>k\<close> slices, and either the call returns and \<open>k\<close> is the
  number of all slices, or the storage refused the \<open>k\<close>-th slice and the call raises that
  exception with the slice attached. So over a storage that refuses no bulk insert the call
  returns after exactly \<open>ceil(N / C)\<close> calls; and there is no call for the empty list.
\<close>

theorem chunked_bulk_create_calls:
  assumes cs: "chunk_size = (case chunk_size_arg of
                   Some c \<Rightarrow> c
                 | None \<Rightarrow> (case map_of settings ''BULK_CREATE_CHUNK_SIZE'' of
                              Some v \<Rightarrow> v | None \<Rightarrow> 50))"
    and pos: "0 < chunk_size"
    and run: "chunked_bulk_create orm settings model unsaved chunk_size_arg w = (r, w')"
  shows "\<exists>chunks k.
           concat chunks = unsaved \<and>
           (\<forall>j<length chunks.
              chunks ! j = slice unsaved (j * nat chunk_size) (nat chunk_size) \<and>
              chunks ! j \<noteq> [] \<and> length (chunks ! j) \<le> nat chunk_size) \<and>
           length chunks = (length unsaved + nat chunk_size - 1) div nat chunk_size \<and>
           length unsaved \<le> length chunks * nat chunk_size \<and>
           length chunks * nat chunk_size < length unsaved + nat chunk_size \<and>
           k \<le> length chunks \<and>
           calls w' = calls w @ map CallBulkCreate (take k chunks) \<and>
           (r = Inr () \<and> k = length chunks \<or>
            (\<exists>e d. 0 < k \<and> orm_bulk_create orm model (chunks ! (k - 1)) d = Inl e \<and>
               r = Inl (Raised (e\<lparr>petl_chunk_data := Some (chunks ! (k - 1))\<rparr>)))) \<and>
           ((\<forall>chunk d. \<exists>d'. orm_bulk_create orm model chunk d = Inr d') \<longrightarrow>
              r = Inr () \<and> k = length chunks) \<and>
           (unsaved = [] \<longrightarrow> calls w' = calls w)"
proof -
  let ?c = "nat chunk_size"
  let ?n = "(length unsaved + ?c - 1) div ?c"
  let ?starts = "map (\<lambda>j. j * ?c) [0 ..< ?n]"
  let ?chunks = "chunks_of ?c unsaved"
  from pos have c: "0 < ?c" by simp
  from cs have "(case chunk_size_arg of
                   None \<Rightarrow> get_setting settings ''BULK_CREATE_CHUNK_SIZE''
                 | Some c \<Rightarrow> Inr c) = Inr chunk_size"
    by (simp add: get_setting_def DEFAULTS_def split: option.splits)
  moreover from pos have "py_range (length unsaved) chunk_size = Inr ?starts"
    by (simp add: py_range_def)
  ultimately have "bulk_create_chunks orm model unsaved ?c ?starts w = (r, w')"
    using run by (simp add: chunked_bulk_create_def)
  from bulk_create_chunks_calls [OF this] obtain k where k: "k \<le> length ?starts"
    "calls w' = calls w @ map (\<lambda>i. CallBulkCreate (slice unsaved i ?c)) (take k ?starts)"
    "r = Inr () \<and> k = length ?starts \<or>
     (\<exists>e d. 0 < k \<and> orm_bulk_create orm model (slice unsaved (?starts ! (k - 1)) ?c) d = Inl e \<and>
        r = Inl (Raised (e\<lparr>petl_chunk_data := Some (slice unsaved (?starts ! (k - 1)) ?c)\<rparr>)))"
    by blast
  have len: "length ?chunks = ?n" by (simp add: chunks_of_def)
  have m: "map (\<lambda>i. CallBulkCreate (slice unsaved i ?c)) (take k ?starts) =
           map CallBulkCreate (take k ?chunks)"
    by (simp add: chunks_of_def take_map)
  note p = chunks_of_props [OF c, of unsaved]
  have nth: "\<forall>j<length ?chunks.
              ?chunks ! j = slice unsaved (j * ?c) ?c \<and>
              ?chunks ! j \<noteq> [] \<and> length (?chunks ! j) \<le> ?c"
  proof (intro allI impI)
    fix j assume j: "j < length ?chunks"
    then have "?chunks ! j \<in> set ?chunks" by (rule nth_mem)
    with p(2) have "?chunks ! j \<noteq> [] \<and> length (?chunks ! j) \<le> ?c" by blast
    moreover from j have "?chunks ! j = slice unsaved (j * ?c) ?c"
      by (simp add: chunks_of_def)
    ultimately show "?chunks ! j = slice unsaved (j * ?c) ?c \<and>
              ?chunks ! j \<noteq> [] \<and> length (?chunks ! j) \<le> ?c" by simp
  qed
  have last_chunk: "slice unsaved (?starts ! (k - 1)) ?c = ?chunks ! (k - 1)" if "0 < k"
  proof -
    from that k(1) have "k - 1 < ?n" by simp
    then show ?thesis by (simp add: chunks_of_def)
  qed
  have outcome: "r = Inr () \<and> k = length ?chunks \<or>
     (\<exists>e d. 0 < k \<and> orm_bulk_create orm model (?chunks ! (k - 1)) d = Inl e \<and>
        r = Inl (Raised (e\<lparr>petl_chunk_data := Some (?chunks ! (k - 1))\<rparr>)))"
    using k(3)
  proof
    assume "r = Inr () \<and> k = length ?starts"
    with len show ?thesis by simp
  next
    assume "\<exists>e d. 0 < k \<and>
        orm_bulk_create orm model (slice unsaved (?starts ! (k - 1)) ?c) d = Inl e \<and>
        r = Inl (Raised (e\<lparr>petl_chunk_data := Some (slice unsaved (?starts ! (k - 1)) ?c)\<rparr>))"
    then obtain e d where "0 < k"
      "orm_bulk_create orm model (slice unsaved (?starts ! (k - 1)) ?c) d = Inl e"
      "r = Inl (Raised (e\<lparr>petl_chunk_data := Some (slice unsaved (?starts ! (k - 1)) ?c)\<rparr>))"
      by blast
    with last_chunk show ?thesis by auto
  qed
  have accepted: "(\<forall>chunk d. \<exists>d'. orm_bulk_create orm model chunk d = Inr d') \<longrightarrow>
      r = Inr () \<and> k = length ?chunks"
  proof
    assume a: "\<forall>chunk d. \<exists>d'. orm_bulk_create orm model chunk d = Inr d'"
    from outcome show "r = Inr () \<and> k = length ?chunks"
    proof
      assume "r = Inr () \<and> k = length ?chunks"
      then show ?thesis .
    next
      assume "\<exists>e d. 0 < k \<and> orm_bulk_create orm model (?chunks ! (k - 1)) d = Inl e \<and>
        r = Inl (Raised (e\<lparr>petl_chunk_data := Some (?chunks ! (k - 1))\<rparr>))"
      then obtain e d where "orm_bulk_create orm model (?chunks ! (k - 1)) d = Inl e" by blast
      moreover from a obtain d' where "orm_bulk_create orm model (?chunks ! (k - 1)) d = Inr d'"
        by blast
      ultimately show ?thesis by simp
    qed
  qed
  have empty: "unsaved = [] \<longrightarrow> calls w' = calls w"
  proof
    assume "unsaved = []"
    with c have "?n = 0" by simp
    with k(1) have "k = 0" by simp
    with k(2) show "calls w' = calls w" by simp
  qed
  from k len have k': "k \<le> length ?chunks" by simp
  from k(2) m have calls': "calls w' = calls w @ map CallBulkCreate (take k ?chunks)" by simp
  show ?thesis
    using p(1) nth len p(3) p(4) k' calls' outcome accepted empty
    by (intro exI [of _ ?chunks] exI [of _ k]) blast
qed

theorem chunked_bulk_create_calls_witness:
  "chunked_bulk_create mem_orm [] Person three_people (Some 2) world0 =
     (Inr (), \<lparr>db = person 1 ''Alice'' 30 # three_people,
               calls = [CallBulkCreate [person 2 ''Bob'' 25, person 3 ''Carol'' 41],
                        CallBulkCreate [person 4 ''Dave'' 52]]\<rparr>) \<and>
   (\<exists>chunks k.
           concat chunks = three_people \<and>
           (\<forall>j<length chunks.
              chunks ! j = slice three_people (j * nat 2) (nat 2) \<and>
              chunks ! j \<noteq> [] \<and> length (chunks ! j) \<le> nat 2) \<and>
           length chunks = (length three_people + nat 2 - 1) div nat 2 \<and>
           length three_people \<le> length chunks * nat 2 \<and>
           length chunks * nat 2 < length three_people + nat 2 \<and>
           k \<le> length chunks \<and>
           calls (snd (chunked_bulk_create mem_orm [] Person three_people (Some 2) world0)) = calls world0 @ map CallBulkCreate (take k chunks) \<and>
           (fst (chunked_bulk_create mem_orm [] Person three_people (Some 2) world0) = Inr () \<and> k = length chunks \<or>
            (\<exists>e d. 0 < k \<and> orm_bulk_create mem_orm Person (chunks ! (k - 1)) d = Inl e \<and>
               fst (chunked_bulk_create mem_orm [] Person three_people (Some 2) world0) = Inl (Raised (e\<lparr>petl_chunk_data := Some (chunks ! (k - 1))\<rparr>)))) \<and>
           ((\<forall>chunk d. \<exists>d'. orm_bulk_create mem_orm Person chunk d = Inr d') \<longrightarrow>
              fst (chunked_bulk_create mem_orm [] Person three_people (Some 2) world0) = Inr () \<and> k = length chunks) \<and>
           (three_people = [] \<longrightarrow> calls (snd (chunked_bulk_create mem_orm [] Person three_people (Some 2) world0)) = calls world0))"
proof
  show "chunked_bulk_create mem_orm [] Person three_people (Some 2) world0 =
     (Inr (), \<lparr>db = person 1 ''Alice'' 30 # three_people,
               calls = [CallBulkCreate [person 2 ''Bob'' 25, person 3 ''Carol'' 41],
                        CallBulkCreate [person 4 ''Dave'' 52]]\<rparr>)"
    by (simp add: run_defs three_people_def upt_rec [of 0] upt_rec [of 1])
next
  show "\<exists>chunks k.
           concat chunks = three_people \<and>
           (\<forall>j<length chunks.
              chunks ! j = slice three_people (j * nat 2) (nat 2) \<and>
              chunks ! j \<noteq> [] \<and> length (chunks ! j) \<le> nat 2) \<and>
           length chunks = (length three_people + nat 2 - 1) div nat 2 \<and>
           length three_people \<le> length chunks * nat 2 \<and>
           length chunks * nat 2 < length three_people + nat 2 \<and>
           k \<le> length chunks \<and>
           calls (snd (chunked_bulk_create mem_orm [] Person three_people (Some 2) world0)) = calls world0 @ map CallBulkCreate (take k chunks) \<and>
           (fst (chunked_bulk_create mem_orm [] Person three_people (Some 2) world0) = Inr () \<and> k = length chunks \<or>
            (\<exists>e d. 0 < k \<and> orm_bulk_create mem_orm Person (chunks ! (k - 1)) d = Inl e \<and>
               fst (chunked_bulk_create mem_orm [] Person three_people (Some 2) world0) = Inl (Raised (e\<lparr>petl_chunk_data := Some (chunks ! (k - 1))\<rparr>)))) \<and>
           ((\<forall>chunk d. \<exists>d'. orm_bulk_create mem_orm Person chunk d = Inr d') \<longrightarrow>
              fst (chunked_bulk_create mem_orm [] Person three_people (Some 2) world0) = Inr () \<and> k = length chunks) \<and>
           (three_people = [] \<longrightarrow> calls (snd (chunked_bulk_create mem_orm [] Person three_people (Some 2) world0)) = calls world0)"
    by (rule chunked_bulk_create_calls [where chunk_size_arg = "Some 2" and settings = "[]"])
       simp_all
qed

subsection \<open>Rows that create\<close>

lemma keys_updates: "fst ` set (AList.updates ks vs al) = set (take (length vs) ks) \<union> fst ` set al"
proof -
  have "dom (map_of (AList.updates ks vs al)) = set (take (length vs) ks) \<union> dom (map_of al)"
    by (simp add: updates_conv')
  then show ?thesis by (simp add: dom_map_of_conv_image_fst)
qed

lemma load_existing_keys:
  assumes "load_existing orm model update w0 = (Inr existing, w1)"
    and "update \<longrightarrow> orm_all orm model (db w0) = Inr existing_models"
  shows "fst ` set existing \<subseteq> inst_pk ` set existing_models"
proof (cases update)
  case True
  with assms have "existing = AList.updates (map inst_pk existing_models) existing_models []"
    by (auto simp: load_existing_def get_django_objects_def objects_all_def Let_def
        split: if_splits)
  then have "fst ` set existing = set (map inst_pk existing_models)"
    by (simp add: keys_updates)
  then show ?thesis by simp
next
  case False
  with assms have "existing = []" by (simp add: load_existing_def)
  then show ?thesis by simp
qed

lemma todjango_row_map:
  assumes step: "todjango_row orm model update use_bulk_create table_headers row st w = (Inr st', w')"
  shows "existing_model_map st' = existing_model_map st \<or>
         (\<exists>pk obj d. map_of (existing_model_map st) pk = Some d \<and>
            existing_model_map st' = AList.update pk obj (existing_model_map st))"
proof -
  let ?vm = "AList.updates table_headers row []"
  let ?pk = "dict_get ?vm (pk_name model)"
  show ?thesis
  proof (cases "update \<and> map_of (existing_model_map st) ?pk \<noteq> None")
    case True
    then obtain d where d: "map_of (existing_model_map st) ?pk = Some d" by auto
    from step True d have
      "existing_model_map st' = existing_model_map st \<or>
       (\<exists>obj. existing_model_map st' = AList.update ?pk obj (existing_model_map st))"
      by (auto simp: todjango_row_def Let_def split: sum.splits bool.splits prod.splits)
    with d show ?thesis by blast
  next
    case False
    with step have "existing_model_map st' = existing_model_map st"
      by (auto simp: todjango_row_def Let_def split: sum.splits if_splits prod.splits)
    then show ?thesis ..
  qed
qed

lemma todjango_row_keys:
  assumes "todjango_row orm model update use_bulk_create table_headers row st w = (Inr st', w')"
  shows "fst ` set (existing_model_map st') = fst ` set (existing_model_map st)"
proof -
  from todjango_row_map [OF assms] show ?thesis
  proof
    assume "existing_model_map st' = existing_model_map st"
    then show ?thesis by simp
  next
    assume "\<exists>pk obj d. map_of (existing_model_map st) pk = Some d \<and>
            existing_model_map st' = AList.update pk obj (existing_model_map st)"
    then obtain pk obj d where d: "map_of (existing_model_map st) pk = Some d"
      and e: "existing_model_map st' = AList.update pk obj (existing_model_map st)" by blast
    from d have "(pk, d) \<in> set (existing_model_map st)" by (rule map_of_SomeD)
    then have "pk \<in> fst ` set (existing_model_map st)" by force
    with e show ?thesis by (auto simp only: dom_update)
  qed
qed

lemma todjango_rows_keys:
  "todjango_rows orm model update use_bulk_create table_headers rows st w = (Inr st', w') \<Longrightarrow>
   fst ` set (existing_model_map st') = fst ` set (existing_model_map st)"
proof (induction rows arbitrary: st w)
  case Nil
  then show ?case by simp
next
  case (Cons row rows)
  obtain r1 w1 where s1:
    "todjango_row orm model update use_bulk_create table_headers row st w = (r1, w1)"
    by (cases "todjango_row orm model update use_bulk_create table_headers row st w")
  show ?case
  proof (cases r1)
    case (Inl e)
    with Cons.prems s1 show ?thesis by simp
  next
    case (Inr st1)
    with Cons.prems s1 have
      "todjango_rows orm model update use_bulk_create table_headers rows st1 w1 = (Inr st', w')"
      by simp
    then have "fst ` set (existing_model_map st') = fst ` set (existing_model_map st1)"
      by (rule Cons.IH)
    moreover from s1 Inr have "fst ` set (existing_model_map st1) = fst ` set (existing_model_map st)"
      by (simp add: todjango_row_keys)
    ultimately show ?thesis by simp
  qed
qed

lemma todjango_row_create_path:
  assumes nomatch: "dict_get value_map (pk_name model) \<notin> fst ` set (existing_model_map st)"
    and vm: "value_map = AList.updates table_headers row []"
    and step: "todjango_row orm model update use_bulk_create table_headers row st w = (r, w')"
  shows "(\<exists>e. orm_construct orm model value_map = Inl e \<and> r = Inl e \<and> w' = w) \<or>
         (\<exists>obj. orm_construct orm model value_map = Inr obj \<and>
            (if use_bulk_create
             then r = Inr (st\<lparr>unsaved_models := unsaved_models st @ [obj]\<rparr>) \<and> w' = w
             else calls w' = calls w @ [CallSave obj] \<and>
                  (r = Inr st \<or> (\<exists>e. r = Inl (Raised (e\<lparr>petl_data := Some value_map\<rparr>))))))"
proof -
  from nomatch have "map_of (existing_model_map st) (dict_get value_map (pk_name model)) = None"
    by (simp add: map_of_eq_None_iff)
  with vm step show ?thesis
    by (cases "orm_construct orm model value_map")
       (auto simp: todjango_row_def Let_def save_def split: if_splits sum.splits)
qed

text \<open>
  C4. Take a run of \<^verbatim>\<open>todjango\<close> that has loaded the existing instances (none of
  them with a null primary key, as every stored record has one) and processed some rows.
  If the next row's value map has no entry for the model's primary-key column, or its
  entry equals the primary key of no instance loaded at the start, then, whatever
  \<open>update\<close> is, the row takes the create path: either the constructor
  \<^verbatim>\<open>model(**value_map)\<close> raises, with no storage call; or the new instance is appended
  to the bulk-insert list with no storage call; or the new instance is the one instance
  saved. In the last two cases the dictionary of existing instances and the count of
  updates are left as they were, unless the save raises.
\<close>

theorem todjango_row_create:
  assumes load: "load_existing orm model update w0 = (Inr existing, w1)"
    and loaded: "update \<longrightarrow> orm_all orm model (db w0) = Inr existing_models"
    and stored_pk: "VNone \<notin> inst_pk ` set existing_models"
    and before: "todjango_rows orm model update use_bulk_create table_headers rows_before
                   \<lparr>existing_model_map = existing, updated_model_count = 0,
                    unsaved_models = []\<rparr> w1 = (Inr st, w)"
    and vm: "value_map = AList.updates table_headers row []"
    and nomatch: "map_of value_map (pk_name model) = None \<or>
                  dict_get value_map (pk_name model) \<notin> inst_pk ` set existing_models"
    and step: "todjango_row orm model update use_bulk_create table_headers row st w = (r, w')"
  shows "(\<exists>e. orm_construct orm model value_map = Inl e \<and> r = Inl e \<and> w' = w) \<or>
         (\<exists>obj. orm_construct orm model value_map = Inr obj \<and>
            (if use_bulk_create
             then r = Inr (st\<lparr>unsaved_models := unsaved_models st @ [obj]\<rparr>) \<and> w' = w
             else calls w' = calls w @ [CallSave obj] \<and>
                  (r = Inr st \<or> (\<exists>e. r = Inl (Raised (e\<lparr>petl_data := Some value_map\<rparr>))))))"
proof -
  from todjango_rows_keys [OF before] load_existing_keys [OF load loaded]
  have keys: "fst ` set (existing_model_map st) \<subseteq> inst_pk ` set existing_models" by simp
  from nomatch stored_pk have "dict_get value_map (pk_name model) \<notin> inst_pk ` set existing_models"
    by (auto simp: dict_get_def)
  with keys have "dict_get value_map (pk_name model) \<notin> fst ` set (existing_model_map st)"
    by blast
  from todjango_row_create_path [OF this vm step] show ?thesis .
qed


theorem todjango_row_create_witness:
  "load_existing mem_orm Person True world0 =
     (Inr [(VInt 1, person 1 ''Alice'' 30)],
      \<lparr>db = [person 1 ''Alice'' 30], calls = [CallAll Person]\<rparr>) \<and>
   todjango_rows mem_orm Person True False [''id'', ''name'', ''age'']
     [[VInt 1, VStr ''Alice'', VInt 31]]
     \<lparr>existing_model_map = [(VInt 1, person 1 ''Alice'' 30)], updated_model_count = 0,
      unsaved_models = []\<rparr>
     \<lparr>db = [person 1 ''Alice'' 30], calls = [CallAll Person]\<rparr> =
     (Inr \<lparr>existing_model_map = [(VInt 1, person 1 ''Alice'' 31)], updated_model_count = 1,
           unsaved_models = []\<rparr>,
      \<lparr>db = [person 1 ''Alice'' 31],
       calls = [CallAll Person, CallSave (person 1 ''Alice'' 31)]\<rparr>) \<and>
   dict_get [(''id'', VInt 2), (''name'', VStr ''Bob''), (''age'', VInt 25)] (pk_name Person)
     \<notin> inst_pk ` set [person 1 ''Alice'' 30] \<and>
   todjango_row mem_orm Person True False [''id'', ''name'', ''age'']
     [VInt 2, VStr ''Bob'', VInt 25]
     \<lparr>existing_model_map = [(VInt 1, person 1 ''Alice'' 31)], updated_model_count = 1,
      unsaved_models = []\<rparr>
     \<lparr>db = [person 1 ''Alice'' 31],
      calls = [CallAll Person, CallSave (person 1 ''Alice'' 31)]\<rparr> =
     (Inr \<lparr>existing_model_map = [(VInt 1, person 1 ''Alice'' 31)], updated_model_count = 1,
           unsaved_models = []\<rparr>,
      \<lparr>db = [person 1 ''Alice'' 31, person 2 ''Bob'' 25],
       calls = [CallAll Person, CallSave (person 1 ''Alice'' 31),
                CallSave (person 2 ''Bob'' 25)]\<rparr>) \<and>
   (\<exists>obj. orm_construct mem_orm Person
            [(''id'', VInt 2), (''name'', VStr ''Bob''), (''age'', VInt 25)] = Inr obj \<and>
          calls \<lparr>db = [person 1 ''Alice'' 31, person 2 ''Bob'' 25],
                 calls = [CallAll Person, CallSave (person 1 ''Alice'' 31),
                          CallSave (person 2 ''Bob'' 25)]\<rparr> =
          calls \<lparr>db = [person 1 ''Alice'' 31],
                 calls = [CallAll Person, CallSave (person 1 ''Alice'' 31)]\<rparr> @ [CallSave obj])"
proof -
  let ?hdr = "[''id'', ''name'', ''age'']"
  let ?vm = "[(''id'', VInt 2), (''name'', VStr ''Bob''), (''age'', VInt 25)]"
  let ?E0 = "[(VInt 1, person 1 ''Alice'' 30)]"
  let ?w1 = "\<lparr>db = [person 1 ''Alice'' 30], calls = [CallAll Person]\<rparr>"
  let ?st = "\<lparr>existing_model_map = [(VInt 1, person 1 ''Alice'' 31)], updated_model_count = 1,
              unsaved_models = []\<rparr>"
  let ?w = "\<lparr>db = [person 1 ''Alice'' 31],
             calls = [CallAll Person, CallSave (person 1 ''Alice'' 31)]\<rparr>"
  let ?w' = "\<lparr>db = [person 1 ''Alice'' 31, person 2 ''Bob'' 25],
              calls = [CallAll Person, CallSave (person 1 ''Alice'' 31),
                       CallSave (person 2 ''Bob'' 25)]\<rparr>"
  have load: "load_existing mem_orm Person True world0 = (Inr ?E0, ?w1)"
    by (simp add: run_defs)
  have loaded: "True \<longrightarrow> orm_all mem_orm Person (db world0) = Inr [person 1 ''Alice'' 30]"
    by (simp add: run_defs)
  have stored: "VNone \<notin> inst_pk ` set [person 1 ''Alice'' 30]"
    by (simp add: run_defs)
  have before: "todjango_rows mem_orm Person True False ?hdr [[VInt 1, VStr ''Alice'', VInt 31]]
      \<lparr>existing_model_map = ?E0, updated_model_count = 0, unsaved_models = []\<rparr> ?w1 =
      (Inr ?st, ?w)"
    by (simp add: run_defs)
  have vm: "?vm = AList.updates ?hdr [VInt 2, VStr ''Bob'', VInt 25] []"
    by simp
  have nomatch: "dict_get ?vm (pk_name Person) \<notin> inst_pk ` set [person 1 ''Alice'' 30]"
    by (simp add: run_defs)
  then have nomatch': "map_of ?vm (pk_name Person) = None \<or>
      dict_get ?vm (pk_name Person) \<notin> inst_pk ` set [person 1 ''Alice'' 30]" ..
  have step: "todjango_row mem_orm Person True False ?hdr [VInt 2, VStr ''Bob'', VInt 25] ?st ?w =
      (Inr ?st, ?w')"
    by (simp add: run_defs)
  from todjango_row_create [OF load loaded stored before vm nomatch' step]
  have "\<exists>obj. orm_construct mem_orm Person ?vm = Inr obj \<and>
          calls ?w' = calls ?w @ [CallSave obj]"
    by auto
  with load before nomatch step show ?thesis by blast
qed

subsection \<open>Failures\<close>

lemma todjango_rows_append:
  "todjango_rows orm model update ubc hdr (rows1 @ rows2) st w =
     (case todjango_rows orm model update ubc hdr rows1 st w of
        (Inl e, w1) \<Rightarrow> (Inl e, w1)
      | (Inr st1, w1) \<Rightarrow> todjango_rows orm model update ubc hdr rows2 st1 w1)"
  by (induction rows1 arbitrary: st w) (auto split: prod.splits sum.splits)

lemma bulk_create_chunks_append:
  "bulk_create_chunks orm model xs c (starts1 @ starts2) w =
     (case bulk_create_chunks orm model xs c starts1 w of
        (Inl e, w1) \<Rightarrow> (Inl e, w1)
      | (Inr u, w1) \<Rightarrow> bulk_create_chunks orm model xs c starts2 w1)"
  by (induction starts1 arbitrary: w) (auto split: prod.splits sum.splits)

lemma todjango_row_calls:
  assumes step: "todjango_row orm model update ubc hdr row st w = (r, w')"
  shows "w' = w \<or>
     (\<exists>obj. calls w' = calls w @ [CallSave obj] \<and>
        (\<forall>e. orm_save orm obj (db w) = Inl e \<longrightarrow>
           w' = w\<lparr>calls := calls w @ [CallSave obj]\<rparr> \<and>
           r = Inl (Raised (e\<lparr>petl_data := Some (AList.updates hdr row [])\<rparr>))) \<and>
        (\<forall>d. orm_save orm obj (db w) = Inr d \<longrightarrow> db w' = d \<and> (\<exists>st'. r = Inr st')))"
  using step
  by (auto simp: todjango_row_def Let_def save_def
        split: if_splits option.splits sum.splits bool.splits)

lemma todjango_row_error:
  assumes lg: "legacy_next tbl"
    and rows: "table_rows tbl = Some (hdr, rows_before @ row # rows_after)"
    and load: "load_existing orm model update w = (Inr existing, w0)"
    and before: "todjango_rows orm model update ubc hdr rows_before
                   \<lparr>existing_model_map = existing, updated_model_count = 0,
                    unsaved_models = []\<rparr> w0 = (Inr st, w1)"
    and step: "todjango_row orm model update ubc hdr row st w1 = (Inl err, w2)"
  shows "todjango orm settings tbl (ModelClass model) update create ubc w = (Inl err, w2)"
  using assms
  by (simp add: todjango_def todjango_body_def todjango_rows_append)

lemma todjango_chunk_failure:
  assumes lg: "legacy_next tbl"
    and rows: "table_rows tbl = Some (hdr, rows)"
    and load: "load_existing orm model update w = (Inr existing, w0)"
    and loop: "todjango_rows orm model update True hdr rows
                   \<lparr>existing_model_map = existing, updated_model_count = 0,
                    unsaved_models = []\<rparr> w0 = (Inr st, w1)"
    and cs: "get_setting settings ''BULK_CREATE_CHUNK_SIZE'' = Inr chunk_size"
    and range: "py_range (length (unsaved_models st)) chunk_size =
                  Inr (starts_before @ i # starts_after)"
    and chunks_before: "bulk_create_chunks orm model (unsaved_models st) (nat chunk_size)
                          starts_before w1 = (Inr (), w2)"
    and fails: "orm_bulk_create orm model (slice (unsaved_models st) i (nat chunk_size)) (db w2)
                  = Inl e"
  shows "todjango orm settings tbl (ModelClass model) update create True w =
           (Inl (Raised (e\<lparr>petl_chunk_data :=
                            Some (slice (unsaved_models st) i (nat chunk_size))\<rparr>)),
            w2\<lparr>calls := calls w2 @
                   [CallBulkCreate (slice (unsaved_models st) i (nat chunk_size))]\<rparr>)"
  using assms
  by (simp add: todjango_def todjango_body_def chunked_bulk_create_def
        bulk_create_chunks_append bulk_create_def)

text \<open>
  C8. In a run of \<^verbatim>\<open>todjango\<close> that has read the header and loaded the existing
  instances:
  \<^item> a row, processed after some rows have been, issues no storage call and leaves the
    storage as it is, or issues exactly one, a \<^verbatim>\<open>save\<close>. When the storage refuses that
    \<^verbatim>\<open>save\<close> with the exception \<open>e\<close>, the run ends with \<open>e\<close>, unchanged but for its
    attribute \<open>petl_data\<close>, which holds that row's value map; the refused call is the last
    storage call of the run, the storage is as it was before the call, and the rows after
    it are not processed. When the storage accepts it, the row does not fail;
  \<^item> if, after all rows have been processed and some chunks inserted, the storage refuses
    the next \<^verbatim>\<open>bulk_create\<close> with \<open>e\<close>, the run ends with \<open>e\<close>, unchanged but for its
    attribute \<open>petl_chunk_data\<close>, which holds that chunk; the refused call is the last
    storage call of the run, and the chunks after it are not inserted;
  \<^item> whatever error a row raises is the result of the run, with the storage and the calls
    as they were when it was raised.
\<close>

theorem todjango_storage_failure:
  assumes lg: "legacy_next tbl"
    and load: "load_existing orm model update w = (Inr existing, w0)"
  shows
    "(table_rows tbl = Some (hdr, rows_before @ row # rows_after) \<and>
      todjango_rows orm model update ubc hdr rows_before
        \<lparr>existing_model_map = existing, updated_model_count = 0, unsaved_models = []\<rparr> w0 =
        (Inr st, w1) \<and>
      todjango_row orm model update ubc hdr row st w1 = (r, w2) \<longrightarrow>
      w2 = w1 \<or>
      (\<exists>obj. calls w2 = calls w1 @ [CallSave obj] \<and>
         (\<forall>e. orm_save orm obj (db w1) = Inl e \<longrightarrow>
            todjango orm settings tbl (ModelClass model) update create ubc w =
              (Inl (Raised (e\<lparr>petl_data := Some (AList.updates hdr row [])\<rparr>)),
               w1\<lparr>calls := calls w1 @ [CallSave obj]\<rparr>)) \<and>
         (\<forall>d. orm_save orm obj (db w1) = Inr d \<longrightarrow> db w2 = d \<and> (\<exists>st'. r = Inr st')))) \<and>
     (table_rows tbl = Some (hdr, rows) \<and>
      todjango_rows orm model update True hdr rows
        \<lparr>existing_model_map = existing, updated_model_count = 0, unsaved_models = []\<rparr> w0 =
        (Inr st_end, w3) \<and>
      get_setting settings ''BULK_CREATE_CHUNK_SIZE'' = Inr chunk_size \<and>
      py_range (length (unsaved_models st_end)) chunk_size =
        Inr (starts_before @ i # starts_after) \<and>
      bulk_create_chunks orm model (unsaved_models st_end) (nat chunk_size) starts_before w3 =
        (Inr (), w4) \<and>
      orm_bulk_create orm model (slice (unsaved_models st_end) i (nat chunk_size)) (db w4) =
        Inl e \<longrightarrow>
      todjango orm settings tbl (ModelClass model) update create True w =
        (Inl (Raised (e\<lparr>petl_chunk_data :=
                         Some (slice (unsaved_models st_end) i (nat chunk_size))\<rparr>)),
         w4\<lparr>calls := calls w4 @
                [CallBulkCreate (slice (unsaved_models st_end) i (nat chunk_size))]\<rparr>)) \<and>
     (table_rows tbl = Some (hdr, rows_before @ row # rows_after) \<and>
      todjango_rows orm model update ubc hdr rows_before
        \<lparr>existing_model_map = existing, updated_model_count = 0, unsaved_models = []\<rparr> w0 =
        (Inr st, w1) \<and>
      todjango_row orm model update ubc hdr row st w1 = (Inl err, w2) \<longrightarrow>
      todjango orm settings tbl (ModelClass model) update create ubc w = (Inl err, w2))"
proof (intro conjI impI)
  assume h: "table_rows tbl = Some (hdr, rows_before @ row # rows_after) \<and>
      todjango_rows orm model update ubc hdr rows_before
        \<lparr>existing_model_map = existing, updated_model_count = 0, unsaved_models = []\<rparr> w0 =
        (Inr st, w1) \<and>
      todjango_row orm model update ubc hdr row st w1 = (r, w2)"
  then have step: "todjango_row orm model update ubc hdr row st w1 = (r, w2)" by simp
  from todjango_row_calls [OF step]
  show "w2 = w1 \<or>
      (\<exists>obj. calls w2 = calls w1 @ [CallSave obj] \<and>
         (\<forall>e. orm_save orm obj (db w1) = Inl e \<longrightarrow>
            todjango orm settings tbl (ModelClass model) update create ubc w =
              (Inl (Raised (e\<lparr>petl_data := Some (AList.updates hdr row [])\<rparr>)),
               w1\<lparr>calls := calls w1 @ [CallSave obj]\<rparr>)) \<and>
         (\<forall>d. orm_save orm obj (db w1) = Inr d \<longrightarrow> db w2 = d \<and> (\<exists>st'. r = Inr st')))"
  proof
    assume "w2 = w1"
    then show ?thesis by simp
  next
    assume "\<exists>obj. calls w2 = calls w1 @ [CallSave obj] \<and>
        (\<forall>e. orm_save orm obj (db w1) = Inl e \<longrightarrow>
           w2 = w1\<lparr>calls := calls w1 @ [CallSave obj]\<rparr> \<and>
           r = Inl (Raised (e\<lparr>petl_data := Some (AList.updates hdr row [])\<rparr>))) \<and>
        (\<forall>d. orm_save orm obj (db w1) = Inr d \<longrightarrow> db w2 = d \<and> (\<exists>st'. r = Inr st'))"
    then obtain obj where call: "calls w2 = calls w1 @ [CallSave obj]"
      and refused: "\<And>e. orm_save orm obj (db w1) = Inl e \<Longrightarrow>
           w2 = w1\<lparr>calls := calls w1 @ [CallSave obj]\<rparr> \<and>
           r = Inl (Raised (e\<lparr>petl_data := Some (AList.updates hdr row [])\<rparr>))"
      and accepted: "\<And>d. orm_save orm obj (db w1) = Inr d \<Longrightarrow>
           db w2 = d \<and> (\<exists>st'. r = Inr st')"
      by blast
    have "todjango orm settings tbl (ModelClass model) update create ubc w =
              (Inl (Raised (e\<lparr>petl_data := Some (AList.updates hdr row [])\<rparr>)),
               w1\<lparr>calls := calls w1 @ [CallSave obj]\<rparr>)"
      if e: "orm_save orm obj (db w1) = Inl e" for e
    proof -
      from refused [OF e] step
      have "todjango_row orm model update ubc hdr row st w1 =
              (Inl (Raised (e\<lparr>petl_data := Some (AList.updates hdr row [])\<rparr>)),
               w1\<lparr>calls := calls w1 @ [CallSave obj]\<rparr>)" by simp
      with h show ?thesis using todjango_row_error [OF lg _ load] by blast
    qed
    with call accepted show ?thesis by blast
  qed
next
  assume "table_rows tbl = Some (hdr, rows) \<and>
      todjango_rows orm model update True hdr rows
        \<lparr>existing_model_map = existing, updated_model_count = 0, unsaved_models = []\<rparr> w0 =
        (Inr st_end, w3) \<and>
      get_setting settings ''BULK_CREATE_CHUNK_SIZE'' = Inr chunk_size \<and>
      py_range (length (unsaved_models st_end)) chunk_size =
        Inr (starts_before @ i # starts_after) \<and>
      bulk_create_chunks orm model (unsaved_models st_end) (nat chunk_size) starts_before w3 =
        (Inr (), w4) \<and>
      orm_bulk_create orm model (slice (unsaved_models st_end) i (nat chunk_size)) (db w4) =
        Inl e"
  then show "todjango orm settings tbl (ModelClass model) update create True w =
        (Inl (Raised (e\<lparr>petl_chunk_data :=
                         Some (slice (unsaved_models st_end) i (nat chunk_size))\<rparr>)),
         w4\<lparr>calls := calls w4 @
                [CallBulkCreate (slice (unsaved_models st_end) i (nat chunk_size))]\<rparr>)"
    using todjango_chunk_failure [OF lg _ load] by blast
next
  assume "table_rows tbl = Some (hdr, rows_before @ row # rows_after) \<and>
      todjango_rows orm model update ubc hdr rows_before
        \<lparr>existing_model_map = existing, updated_model_count = 0, unsaved_models = []\<rparr> w0 =
        (Inr st, w1) \<and>
      todjango_row orm model update ubc hdr row st w1 = (Inl err, w2)"
  then show "todjango orm settings tbl (ModelClass model) update create ubc w = (Inl err, w2)"
    using todjango_row_error [OF lg _ load] by blast
qed

theorem todjango_storage_failure_witness:
  "todjango (failing_orm db_error) [] (legacy_table scenario_rows) (ModelClass Person)
     True True True world0 =
     (Inl (Raised (db_error\<lparr>petl_data :=
              Some [(''id'', VInt 1), (''name'', VStr ''Alice''), (''age'', VInt 31)]\<rparr>)),
      \<lparr>db = [person 1 ''Alice'' 30],
       calls = [CallAll Person, CallSave (person 1 ''Alice'' 31)]\<rparr>) \<and>
   todjango (failing_orm db_error) [(''BULK_CREATE_CHUNK_SIZE'', 1)] (legacy_table new_rows)
     (ModelClass Person) True True True world0 =
     (Inl (Raised (db_error\<lparr>petl_chunk_data := Some [person 2 ''Bob'' 25]\<rparr>)),
      \<lparr>db = [person 1 ''Alice'' 30],
       calls = [CallAll Person, CallBulkCreate [person 2 ''Bob'' 25]]\<rparr>) \<and>
   todjango mem_orm [] (legacy_table ([''id'', ''nickname''], [[VInt 5, VStr ''Al'']]))
     (ModelClass Person) True True True world0 =
     (Inl TypeError, \<lparr>db = [person 1 ''Alice'' 30], calls = [CallAll Person]\<rparr>)"
proof -
  let ?form = "failing_orm db_error"
  let ?hdr = "[''id'', ''name'', ''age'']"
  let ?E = "[(VInt 1, person 1 ''Alice'' 30)]"
  let ?st0 = "\<lparr>existing_model_map = ?E, updated_model_count = 0, unsaved_models = []\<rparr>"
  let ?w0 = "\<lparr>db = [person 1 ''Alice'' 30], calls = [CallAll Person]\<rparr>"
  note defs = run_defs failing_orm_def
  have lg: "legacy_next (legacy_table rows)" for rows by (simp add: legacy_table_def)
  have load: "load_existing ?form Person True world0 = (Inr ?E, ?w0)"
    by (simp add: defs)
  have load': "load_existing mem_orm Person True world0 = (Inr ?E, ?w0)"
    by (simp add: defs)
  \<comment> \<open>a save that raises\<close>
  let ?row = "[VInt 1, VStr ''Alice'', VInt 31]"
  let ?w2 = "\<lparr>db = [person 1 ''Alice'' 30],
              calls = [CallAll Person, CallSave (person 1 ''Alice'' 31)]\<rparr>"
  let ?r = "Inl (Raised (db_error\<lparr>petl_data :=
              Some [(''id'', VInt 1), (''name'', VStr ''Alice''), (''age'', VInt 31)]\<rparr>))"
  have a: "table_rows (legacy_table scenario_rows) =
             Some (?hdr, [] @ ?row # [[VInt 2, VStr ''Bob'', VInt 25]]) \<and>
           todjango_rows ?form Person True True ?hdr [] ?st0 ?w0 = (Inr ?st0, ?w0) \<and>
           todjango_row ?form Person True True ?hdr ?row ?st0 ?w0 = (?r, ?w2)"
    by (simp add: defs scenario_rows_def)
  from todjango_storage_failure [OF lg load, THEN conjunct1, rule_format, OF a,
         where settings = "[]" and create = True]
  have "\<exists>obj. calls ?w2 = calls ?w0 @ [CallSave obj] \<and>
         (\<forall>e. orm_save ?form obj (db ?w0) = Inl e \<longrightarrow>
            todjango ?form [] (legacy_table scenario_rows) (ModelClass Person)
              True True True world0 =
              (Inl (Raised (e\<lparr>petl_data := Some (AList.updates ?hdr ?row [])\<rparr>)),
               ?w0\<lparr>calls := calls ?w0 @ [CallSave obj]\<rparr>))"
    by auto
  then have 1: "todjango ?form [] (legacy_table scenario_rows) (ModelClass Person)
             True True True world0 = (?r, ?w2)"
    by (auto simp: failing_orm_def)
  \<comment> \<open>a bulk insert that raises\<close>
  let ?st_end = "\<lparr>existing_model_map = ?E, updated_model_count = 0,
                  unsaved_models = [person 2 ''Bob'' 25, person 3 ''Carol'' 41]\<rparr>"
  have b: "table_rows (legacy_table new_rows) = Some (?hdr, snd new_rows) \<and>
           todjango_rows ?form Person True True ?hdr (snd new_rows) ?st0 ?w0 =
             (Inr ?st_end, ?w0) \<and>
           get_setting [(''BULK_CREATE_CHUNK_SIZE'', 1)] ''BULK_CREATE_CHUNK_SIZE'' = Inr 1 \<and>
           py_range (length (unsaved_models ?st_end)) 1 = Inr ([] @ 0 # [1]) \<and>
           bulk_create_chunks ?form Person (unsaved_models ?st_end) (nat 1) [] ?w0 =
             (Inr (), ?w0) \<and>
           orm_bulk_create ?form Person (slice (unsaved_models ?st_end) 0 (nat 1)) (db ?w0) =
             Inl db_error"
    by (simp add: defs new_rows_def upt_rec [of 0] upt_rec [of 1])
  have 2: "todjango ?form [(''BULK_CREATE_CHUNK_SIZE'', 1)] (legacy_table new_rows)
             (ModelClass Person) True True True world0 =
           (Inl (Raised (db_error\<lparr>petl_chunk_data := Some [person 2 ''Bob'' 25]\<rparr>)),
            \<lparr>db = [person 1 ''Alice'' 30],
             calls = [CallAll Person, CallBulkCreate [person 2 ''Bob'' 25]]\<rparr>)"
    using todjango_storage_failure [OF lg load, THEN conjunct2, THEN conjunct1, rule_format, OF b]
    by (simp add: slice_def)
  \<comment> \<open>an error that is not a storage failure\<close>
  let ?hdr3 = "[''id'', ''nickname'']"
  have c: "table_rows (legacy_table (?hdr3, [[VInt 5, VStr ''Al'']])) =
             Some (?hdr3, [] @ [VInt 5, VStr ''Al''] # []) \<and>
           todjango_rows mem_orm Person True True ?hdr3 [] ?st0 ?w0 = (Inr ?st0, ?w0) \<and>
           todjango_row mem_orm Person True True ?hdr3 [VInt 5, VStr ''Al''] ?st0 ?w0 =
             (Inl TypeError, ?w0)"
    by (simp add: defs)
  have 3: "todjango mem_orm [] (legacy_table (?hdr3, [[VInt 5, VStr ''Al'']]))
             (ModelClass Person) True True True world0 = (Inl TypeError, ?w0)"
    using todjango_storage_failure [OF lg load', THEN conjunct2, THEN conjunct2, rule_format, OF c]
    by simp
  from 1 2 3 show ?thesis by simp
qed

subsection \<open>Running the adapter twice\<close>

lemma distinct_row_vm: "distinct (map fst (row_vm hdr row))"
  unfolding row_vm_def by (rule distinct_updates) simp

lemma keys_row_vm: "fst ` set (row_vm hdr row) \<subseteq> set hdr"
  unfolding row_vm_def by (auto simp: keys_updates dest: in_set_takeD)

lemma will_model_change_plain:
  "\<forall>k\<in>fst ` set vm. plain_name (inst_class m) k \<Longrightarrow>
   will_model_change vm m = Inr False \<longleftrightarrow> matches vm m"
  by (induction vm) (auto simp: getattr_plain matches_def split: option.splits if_splits)

lemma apply_matches:
  assumes "apply_value_map vm d = Inr obj" and "distinct (map fst vm)"
    and "\<forall>k\<in>fst ` set vm. plain_name (inst_class d) k"
  shows "matches vm obj"
proof -
  from assms(1,3) have "obj = d\<lparr>attrs := apply_all vm (attrs d)\<rparr>"
    by (simp add: apply_value_map_ok)
  then have "attrs obj = apply_all vm (attrs d)" by simp
  with assms(2) show ?thesis by (auto simp: matches_def apply_all_key)
qed

lemma apply_pk:
  assumes ap: "apply_value_map vm d = Inr obj"
    and dv: "distinct (map fst vm)"
    and pl: "\<forall>k\<in>fst ` set vm. plain_name (inst_class d) k"
    and cls: "inst_class d = model"
    and pk: "inst_pk d = dict_get vm (pk_name model)"
  shows "inst_pk obj = dict_get vm (pk_name model) \<and> inst_class obj = model"
proof -
  from ap pl have obj: "obj = d\<lparr>attrs := apply_all vm (attrs d)\<rparr>"
    by (simp add: apply_value_map_ok)
  with cls have c: "inst_class obj = model" by simp
  have "field_value obj (pk_name model) = dict_get vm (pk_name model)"
  proof (cases "map_of vm (pk_name model)")
    case None
    then have "pk_name model \<notin> fst ` set vm" by (simp add: map_of_eq_None_iff)
    then have "map_of (attrs obj) (pk_name model) = map_of (attrs d) (pk_name model)"
      using obj by (simp add: apply_all_other)
    with pk cls show ?thesis by (simp add: field_value_def inst_pk_def)
  next
    case (Some v)
    then have "(pk_name model, v) \<in> set vm" by (rule map_of_SomeD)
    with dv have "map_of (attrs obj) (pk_name model) = Some v"
      using obj by (simp add: apply_all_key)
    with Some show ?thesis by (simp add: field_value_def dict_get_def)
  qed
  with c show ?thesis by (simp add: inst_pk_def)
qed

lemma agrees_matches:
  "agrees model m obj \<Longrightarrow> matches vm obj \<Longrightarrow> fst ` set vm \<subseteq> set (field_names model) \<Longrightarrow>
   matches vm m"
  unfolding agrees_def matches_def by force

lemma agrees_refl: "agrees model m m"
  by (simp add: agrees_def)

text \<open>The four outcomes of a row that does not raise.\<close>

lemma todjango_row_cases:
  assumes step: "todjango_row orm model True ubc hdr row st w = (Inr st', w')"
  obtains
    (unchanged) d where "map_of (existing_model_map st) (row_pk model hdr row) = Some d"
      and "will_model_change (row_vm hdr row) d = Inr False" and "st' = st" and "w' = w"
  | (updated) d obj where "map_of (existing_model_map st) (row_pk model hdr row) = Some d"
      and "apply_value_map (row_vm hdr row) d = Inr obj"
      and "st' = st\<lparr>existing_model_map :=
              AList.update (row_pk model hdr row) obj (existing_model_map st),
              updated_model_count := updated_model_count st + 1\<rparr>"
      and "orm_save orm obj (db w) = Inr (db w')"
  | (deferred) obj where "map_of (existing_model_map st) (row_pk model hdr row) = None"
      and "orm_construct orm model (row_vm hdr row) = Inr obj" and "ubc"
      and "st' = st\<lparr>unsaved_models := unsaved_models st @ [obj]\<rparr>" and "w' = w"
  | (created) obj where "map_of (existing_model_map st) (row_pk model hdr row) = None"
      and "orm_construct orm model (row_vm hdr row) = Inr obj" and "\<not> ubc"
      and "st' = st"
      and "orm_save orm obj (db w) = Inr (db w')"
proof (cases "map_of (existing_model_map st) (row_pk model hdr row)")
  case None
  with step obtain obj where c: "orm_construct orm model (row_vm hdr row) = Inr obj"
    by (cases "orm_construct orm model (row_vm hdr row)")
       (auto simp: todjango_row_def Let_def row_pk_def row_vm_def)
  show ?thesis
  proof (cases ubc)
    case True
    with step None c have "st' = st\<lparr>unsaved_models := unsaved_models st @ [obj]\<rparr>" "w' = w"
      by (auto simp: todjango_row_def Let_def row_pk_def row_vm_def)
    with None c True show ?thesis by (rule deferred)
  next
    case False
    with step None c have "st' = st" "orm_save orm obj (db w) = Inr (db w')"
      by (auto simp: todjango_row_def Let_def row_pk_def row_vm_def save_def
          split: sum.splits)
    with None c False show ?thesis by (rule created)
  qed
next
  case (Some d)
  show ?thesis
  proof (cases "will_model_change (row_vm hdr row) d")
    case (Inl e)
    with step Some show ?thesis
      by (simp add: todjango_row_def Let_def row_pk_def row_vm_def)
  next
    case (Inr ch)
    show ?thesis
    proof (cases ch)
      case False
      with step Some Inr have "st' = st" "w' = w"
        by (simp_all add: todjango_row_def Let_def row_pk_def row_vm_def)
      with Some Inr False show ?thesis by (intro unchanged) simp_all
    next
      case True
      with step Some Inr obtain obj where ap: "apply_value_map (row_vm hdr row) d = Inr obj"
        by (cases "apply_value_map (row_vm hdr row) d")
           (auto simp: todjango_row_def Let_def row_pk_def row_vm_def)
      with step Some Inr True have
        "st' = st\<lparr>existing_model_map :=
              AList.update (row_pk model hdr row) obj (existing_model_map st),
              updated_model_count := updated_model_count st + 1\<rparr>"
        "orm_save orm obj (db w) = Inr (db w')"
        by (auto simp: todjango_row_def Let_def row_pk_def row_vm_def save_def
            split: sum.splits)
      with Some ap show ?thesis by (rule updated)
    qed
  qed
qed


lemma save_laws:
  assumes "keeps_saved orm model" and "inst_class obj = model"
    and "keys_ok model (stored orm model d)" and "orm_save orm obj d = Inr d'"
  shows "keys_ok model (stored orm model d')"
    and "inst_pk obj = VNone \<Longrightarrow> set (stored orm model d) \<subseteq> set (stored orm model d')"
    and "inst_pk obj \<noteq> VNone \<Longrightarrow> \<exists>m\<in>set (stored orm model d'). agrees model m obj"
    and "inst_pk obj \<noteq> VNone \<Longrightarrow> m \<in> set (stored orm model d) \<Longrightarrow>
         inst_pk m \<noteq> inst_pk obj \<Longrightarrow> m \<in> set (stored orm model d')"
proof -
  from assms(1) have "\<forall>obj d d'.
        inst_class obj = model \<and> keys_ok model (stored orm model d) \<and>
        orm_save orm obj d = Inr d' \<longrightarrow>
        keys_ok model (stored orm model d') \<and>
        (if inst_pk obj = VNone
         then set (stored orm model d) \<subseteq> set (stored orm model d')
         else (\<exists>m\<in>set (stored orm model d'). agrees model m obj) \<and>
              (\<forall>m\<in>set (stored orm model d).
                 inst_pk m \<noteq> inst_pk obj \<longrightarrow> m \<in> set (stored orm model d')))"
    unfolding keeps_saved_def by (elim conjE)
  with assms(2-4) have *: "keys_ok model (stored orm model d') \<and>
        (if inst_pk obj = VNone
         then set (stored orm model d) \<subseteq> set (stored orm model d')
         else (\<exists>m\<in>set (stored orm model d'). agrees model m obj) \<and>
              (\<forall>m\<in>set (stored orm model d).
                 inst_pk m \<noteq> inst_pk obj \<longrightarrow> m \<in> set (stored orm model d')))"
    by blast
  from * show "keys_ok model (stored orm model d')" by simp
  from * show "inst_pk obj = VNone \<Longrightarrow> set (stored orm model d) \<subseteq> set (stored orm model d')"
    by simp
  from * show "inst_pk obj \<noteq> VNone \<Longrightarrow> \<exists>m\<in>set (stored orm model d'). agrees model m obj"
    by simp
  from * show "inst_pk obj \<noteq> VNone \<Longrightarrow> m \<in> set (stored orm model d) \<Longrightarrow>
         inst_pk m \<noteq> inst_pk obj \<Longrightarrow> m \<in> set (stored orm model d')"
    by simp
qed

lemma bulk_laws:
  assumes "keeps_saved orm model" and "\<forall>u\<in>set chunk. inst_class u = model"
    and "keys_ok model (stored orm model d)" and "orm_bulk_create orm model chunk d = Inr d'"
  shows "keys_ok model (stored orm model d')"
    and "set (stored orm model d) \<subseteq> set (stored orm model d')"
    and "u \<in> set chunk \<Longrightarrow> inst_pk u \<noteq> VNone \<Longrightarrow>
         \<exists>m\<in>set (stored orm model d'). agrees model m u"
proof -
  from assms(1) have "\<forall>chunk d d'.
        (\<forall>u\<in>set chunk. inst_class u = model) \<and> keys_ok model (stored orm model d) \<and>
        orm_bulk_create orm model chunk d = Inr d' \<longrightarrow>
        keys_ok model (stored orm model d') \<and>
        set (stored orm model d) \<subseteq> set (stored orm model d') \<and>
        (\<forall>u\<in>set chunk. inst_pk u \<noteq> VNone \<longrightarrow>
           (\<exists>m\<in>set (stored orm model d'). agrees model m u))"
    unfolding keeps_saved_def by (elim conjE)
  with assms(2-4) have *: "keys_ok model (stored orm model d') \<and>
        set (stored orm model d) \<subseteq> set (stored orm model d') \<and>
        (\<forall>u\<in>set chunk. inst_pk u \<noteq> VNone \<longrightarrow>
           (\<exists>m\<in>set (stored orm model d'). agrees model m u))"
    by blast
  from * show "keys_ok model (stored orm model d')" by simp
  from * show "set (stored orm model d) \<subseteq> set (stored orm model d')" by simp
  from * show "u \<in> set chunk \<Longrightarrow> inst_pk u \<noteq> VNone \<Longrightarrow>
         \<exists>m\<in>set (stored orm model d'). agrees model m u" by simp
qed

lemma construct_laws:
  assumes "keeps_saved orm model" and "orm_construct orm model vm = Inr obj"
    and "distinct (map fst vm)" and "fst ` set vm \<subseteq> set (field_names model)"
  shows "inst_class obj = model" and "inst_pk obj = dict_get vm (pk_name model)"
    and "matches vm obj"
proof -
  from assms(1) have "\<forall>vm obj.
        orm_construct orm model vm = Inr obj \<and> distinct (map fst vm) \<and>
        fst ` set vm \<subseteq> set (field_names model) \<longrightarrow>
        inst_class obj = model \<and> inst_pk obj = dict_get vm (pk_name model) \<and>
        matches vm obj"
    unfolding keeps_saved_def by (elim conjE)
  with assms(2-4) have *: "inst_class obj = model \<and>
        inst_pk obj = dict_get vm (pk_name model) \<and> matches vm obj"
    by blast
  from * show "inst_class obj = model" by simp
  from * show "inst_pk obj = dict_get vm (pk_name model)" by simp
  from * show "matches vm obj" by simp
qed

lemma load_laws:
  assumes "keeps_saved orm model"
  shows "orm_all orm model d = Inr (stored orm model d)"
proof -
  from assms have "\<forall>d. \<exists>ms. orm_all orm model d = Inr ms"
    unfolding keeps_saved_def by (elim conjE)
  then obtain ms where "orm_all orm model d = Inr ms" by blast
  then show ?thesis by (simp add: stored_def)
qed


lemma keys_ok_nonnull:
  assumes "keys_ok model ms" and "m \<in> set ms"
  shows "inst_pk m \<noteq> VNone"
proof
  assume eq: "inst_pk m = VNone"
  from assms(2) have "inst_pk m \<in> inst_pk ` set ms" by (rule imageI)
  with eq have "VNone \<in> inst_pk ` set ms" by simp
  with assms(1) show False by (simp add: keys_ok_def)
qed

lemma keys_ok_class: "keys_ok model ms \<Longrightarrow> m \<in> set ms \<Longrightarrow> inst_class m = model"
  by (simp add: keys_ok_def)

lemma keys_ok_unique:
  "keys_ok model ms \<Longrightarrow> x \<in> set ms \<Longrightarrow> y \<in> set ms \<Longrightarrow> inst_pk x = inst_pk y \<Longrightarrow> x = y"
  by (auto simp: keys_ok_def distinct_map dest: inj_onD)

lemma run_inv_step:
  assumes laws: "keeps_saved orm model"
    and hdr: "\<forall>k\<in>set hdr. k \<in> set (field_names model) \<and> plain_name model k"
    and inv: "run_inv orm model hdr D st (db w)"
    and step: "todjango_row orm model True ubc hdr row st w = (Inr st', w')"
    and new: "row_pk model hdr row \<noteq> VNone \<Longrightarrow> row_pk model hdr row \<notin> row_pk model hdr ` D"
  shows "run_inv orm model hdr (insert row D) st' (db w')"
proof -
  let ?E = "existing_model_map st" and ?U = "unsaved_models st"
  let ?p = "row_pk model hdr row" and ?vm = "row_vm hdr row"
  let ?pk = "row_pk model hdr"
  let ?S = "stored orm model (db w)" and ?S' = "stored orm model (db w')"
  from inv have J1: "keys_ok model ?S"
    and J2: "\<And>p m. map_of ?E p = Some m \<Longrightarrow>
               p \<noteq> VNone \<and> inst_pk m = p \<and> inst_class m = model \<and>
               (\<exists>m'\<in>set ?S. agrees model m' m)"
    and J3: "\<And>r. r \<in> D \<Longrightarrow> ?pk r \<noteq> VNone \<Longrightarrow>
               \<exists>m\<in>set ?S \<union> set ?U. inst_pk m = ?pk r \<and> matches (row_vm hdr r) m"
    and J4: "\<And>u. u \<in> set ?U \<Longrightarrow> inst_class u = model"
    and J5: "\<And>r. r \<in> D \<Longrightarrow> ?pk r = VNone \<Longrightarrow>
               \<exists>obj. orm_construct orm model (row_vm hdr r) = Inr obj"
    unfolding run_inv_def by blast+
  have dv: "distinct (map fst ?vm)" by (rule distinct_row_vm)
  have keys: "fst ` set ?vm \<subseteq> set hdr" by (rule keys_row_vm)
  with hdr have fields: "fst ` set ?vm \<subseteq> set (field_names model)"
    and plain: "\<forall>k\<in>fst ` set ?vm. plain_name model k" by blast+
  have pk_vm: "?p = dict_get ?vm (pk_name model)" by (simp add: row_pk_def)
  have other: "?pk r \<noteq> ?p" if "r \<in> D" "?p \<noteq> VNone" for r
  proof
    assume eq: "?pk r = ?p"
    from that(1) have "?pk r \<in> ?pk ` D" by (rule imageI)
    with eq have "?p \<in> ?pk ` D" by simp
    with new [OF that(2)] show False by simp
  qed
  from step show ?thesis
  proof (cases rule: todjango_row_cases)
    case (unchanged d)
    from J2 [OF unchanged(1)] obtain m' where d: "?p \<noteq> VNone" "inst_pk d = ?p"
      "inst_class d = model" and m': "m' \<in> set ?S" "agrees model m' d" by blast
    from plain d(3) unchanged(2) have "matches ?vm d"
      by (simp add: will_model_change_plain)
    then have "matches ?vm m'" by (rule agrees_matches [OF m'(2) _ fields])
    moreover from m'(2) d(2) have "inst_pk m' = ?p" by (simp add: agrees_def)
    ultimately have row: "\<exists>m\<in>set ?S \<union> set ?U. inst_pk m = ?p \<and> matches ?vm m"
      using m'(1) by blast
    have 3: "\<exists>m\<in>set ?S \<union> set ?U. inst_pk m = ?pk r \<and> matches (row_vm hdr r) m"
      if "r \<in> insert row D" "?pk r \<noteq> VNone" for r
      using that row J3 by blast
    have 5: "\<exists>obj. orm_construct orm model (row_vm hdr r) = Inr obj"
      if "r \<in> insert row D" "?pk r = VNone" for r
      using that d(1) J5 by blast
    show ?thesis
      unfolding run_inv_def unchanged(3) unchanged(4)
      using J1 J2 3 J4 5 by (intro conjI) blast+
  next
    case (updated d obj)
    from J2 [OF updated(1)] have d: "?p \<noteq> VNone" "inst_pk d = ?p" "inst_class d = model"
      by blast+
    from plain d(3) have plain_d: "\<forall>k\<in>fst ` set ?vm. plain_name (inst_class d) k" by simp
    from apply_pk [OF updated(2) dv plain_d d(3)] d(2) pk_vm
    have obj: "inst_pk obj = ?p" "inst_class obj = model" by simp_all
    from apply_matches [OF updated(2) dv plain_d] have mobj: "matches ?vm obj" .
    from obj d(1) have nn: "inst_pk obj \<noteq> VNone" by simp
    note sl = save_laws [OF laws obj(2) J1 updated(4)]
    from sl(3) [OF nn] obtain mo where mo: "mo \<in> set ?S'" "agrees model mo obj" by blast
    have kept: "m \<in> set ?S'" if "m \<in> set ?S" "inst_pk m \<noteq> ?p" for m
      using sl(4) [OF nn that(1)] that(2) obj(1) by simp
    let ?E' = "AList.update ?p obj ?E"
    have E': "existing_model_map st' = ?E'" and U': "unsaved_models st' = ?U"
      using updated(3) by simp_all
    have 2: "q \<noteq> VNone \<and> inst_pk m = q \<and> inst_class m = model \<and>
             (\<exists>m'\<in>set ?S'. agrees model m' m)"
      if "map_of ?E' q = Some m" for q m
    proof (cases "q = ?p")
      case True
      with that have "m = obj" by (simp add: update_conv')
      with obj d(1) True mo show ?thesis by auto
    next
      case False
      with that have "map_of ?E q = Some m" by (simp add: update_conv')
      from J2 [OF this] obtain m' where m: "q \<noteq> VNone" "inst_pk m = q" "inst_class m = model"
        and m': "m' \<in> set ?S" "agrees model m' m" by blast
      from m'(2) m(2) False have "inst_pk m' \<noteq> ?p" by (simp add: agrees_def)
      with m'(1) have "m' \<in> set ?S'" by (rule kept)
      with m m'(2) show ?thesis by blast
    qed
    have 3: "\<exists>m\<in>set ?S' \<union> set ?U. inst_pk m = ?pk r \<and> matches (row_vm hdr r) m"
      if "r \<in> insert row D" "?pk r \<noteq> VNone" for r
    proof (cases "r = row")
      case True
      from mo(2) mobj fields have "matches ?vm mo" by (rule agrees_matches)
      moreover from mo(2) obj(1) have "inst_pk mo = ?p" by (simp add: agrees_def)
      ultimately show ?thesis using mo(1) True by blast
    next
      case False
      with that have r: "r \<in> D" by simp
      from J3 [OF r that(2)] obtain m where m: "m \<in> set ?S \<union> set ?U" "inst_pk m = ?pk r"
        "matches (row_vm hdr r) m" by blast
      from other [OF r d(1)] m(2) have "inst_pk m \<noteq> ?p" by simp
      with m(1) kept have "m \<in> set ?S' \<union> set ?U" by blast
      with m(2,3) show ?thesis by blast
    qed
    have 5: "\<exists>obj. orm_construct orm model (row_vm hdr r) = Inr obj"
      if "r \<in> insert row D" "?pk r = VNone" for r
      using that d(1) J5 by blast
    show ?thesis
      unfolding run_inv_def E' U'
      using sl(1) 2 3 J4 5 by (intro conjI) blast+
  next
    case (deferred obj)
    note cl = construct_laws [OF laws deferred(2) dv fields]
    from cl(2) pk_vm have obj: "inst_pk obj = ?p" by simp
    have E': "existing_model_map st' = ?E" and U': "unsaved_models st' = ?U @ [obj]"
      using deferred(4) by simp_all
    have 3: "\<exists>m\<in>set ?S \<union> set (?U @ [obj]). inst_pk m = ?pk r \<and> matches (row_vm hdr r) m"
      if "r \<in> insert row D" "?pk r \<noteq> VNone" for r
    proof (cases "r = row")
      case True
      with obj cl(3) show ?thesis by auto
    next
      case False
      with that have r: "r \<in> D" by simp
      from J3 [OF r that(2)] show ?thesis by auto
    qed
    have 4: "inst_class u = model" if "u \<in> set (?U @ [obj])" for u
      using that J4 cl(1) by auto
    have 5: "\<exists>obj. orm_construct orm model (row_vm hdr r) = Inr obj"
      if "r \<in> insert row D" "?pk r = VNone" for r
      using that deferred(2) J5 by blast
    show ?thesis
      unfolding run_inv_def E' U' deferred(5)
      using J1 J2 3 4 5 by (intro conjI) blast+
  next
    case (created obj)
    note cl = construct_laws [OF laws created(2) dv fields]
    from cl(2) pk_vm have obj: "inst_pk obj = ?p" by simp
    note sl = save_laws [OF laws cl(1) J1 created(5)]
    have kept: "m \<in> set ?S'" if "m \<in> set ?S" "inst_pk m \<noteq> ?p" for m
    proof (cases "?p = VNone")
      case True
      with sl(2) obj that(1) show ?thesis by auto
    next
      case False
      with obj have nn: "inst_pk obj \<noteq> VNone" by simp
      from sl(4) [OF nn that(1)] that(2) obj show ?thesis by simp
    qed
    have nokey: "q \<noteq> ?p" if "map_of ?E q = Some m" for q m
      using that created(1) by auto
    have 2: "q \<noteq> VNone \<and> inst_pk m = q \<and> inst_class m = model \<and>
             (\<exists>m'\<in>set ?S'. agrees model m' m)"
      if "map_of ?E q = Some m" for q m
    proof -
      from J2 [OF that] obtain m' where m: "q \<noteq> VNone" "inst_pk m = q" "inst_class m = model"
        and m': "m' \<in> set ?S" "agrees model m' m" by blast
      from m'(2) m(2) nokey [OF that] have "inst_pk m' \<noteq> ?p" by (simp add: agrees_def)
      with m'(1) have "m' \<in> set ?S'" by (rule kept)
      with m m'(2) show ?thesis by blast
    qed
    have 3: "\<exists>m\<in>set ?S' \<union> set ?U. inst_pk m = ?pk r \<and> matches (row_vm hdr r) m"
      if "r \<in> insert row D" "?pk r \<noteq> VNone" for r
    proof (cases "r = row")
      case True
      with that obj have nn: "inst_pk obj \<noteq> VNone" by simp
      from sl(3) [OF nn] obtain mo where mo: "mo \<in> set ?S'" "agrees model mo obj" by blast
      from mo(2) cl(3) fields have "matches ?vm mo" by (rule agrees_matches)
      moreover from mo(2) obj have "inst_pk mo = ?p" by (simp add: agrees_def)
      ultimately show ?thesis using mo(1) True by blast
    next
      case False
      with that have r: "r \<in> D" by simp
      from J3 [OF r that(2)] obtain m where m: "m \<in> set ?S \<union> set ?U" "inst_pk m = ?pk r"
        "matches (row_vm hdr r) m" by blast
      have "inst_pk m \<noteq> ?p" if "m \<in> set ?S"
      proof (cases "?p = VNone")
        case True
        from J1 that have "inst_pk m \<noteq> VNone" by (rule keys_ok_nonnull)
        with True show ?thesis by simp
      next
        case False
        from other [OF r False] m(2) show ?thesis by simp
      qed
      with m(1) kept have "m \<in> set ?S' \<union> set ?U" by blast
      with m(2,3) show ?thesis by blast
    qed
    have 5: "\<exists>obj. orm_construct orm model (row_vm hdr r) = Inr obj"
      if "r \<in> insert row D" "?pk r = VNone" for r
      using that created(2) J5 by blast
    show ?thesis
      unfolding run_inv_def created(4)
      using sl(1) 2 3 J4 5 by (intro conjI) blast+
  qed
qed


lemma run_inv_rows:
  assumes laws: "keeps_saved orm model"
    and hdr: "\<forall>k\<in>set hdr. k \<in> set (field_names model) \<and> plain_name model k"
  shows "run_inv orm model hdr D st (db w) \<Longrightarrow>
         distinct (filter (\<lambda>p. p \<noteq> VNone) (map (row_pk model hdr) rows)) \<Longrightarrow>
         (\<And>row. row \<in> set rows \<Longrightarrow> row_pk model hdr row \<noteq> VNone \<Longrightarrow>
            row_pk model hdr row \<notin> row_pk model hdr ` D) \<Longrightarrow>
         todjango_rows orm model True ubc hdr rows st w = (Inr st', w') \<Longrightarrow>
         run_inv orm model hdr (D \<union> set rows) st' (db w')"
proof (induction rows arbitrary: D st w)
  case Nil
  then show ?case by simp
next
  case (Cons row rows)
  let ?pk = "row_pk model hdr"
  obtain r1 w1 where s1: "todjango_row orm model True ubc hdr row st w = (r1, w1)"
    by (cases "todjango_row orm model True ubc hdr row st w")
  show ?case
  proof (cases r1)
    case (Inl e)
    with Cons.prems(4) s1 show ?thesis by simp
  next
    case (Inr st1)
    with Cons.prems(4) s1 have rest:
      "todjango_rows orm model True ubc hdr rows st1 w1 = (Inr st', w')" by simp
    from s1 Inr have step: "todjango_row orm model True ubc hdr row st w = (Inr st1, w1)"
      by simp
    have new: "?pk row \<noteq> VNone \<Longrightarrow> ?pk row \<notin> ?pk ` D"
      using Cons.prems(3) [of row] by simp
    from run_inv_step [OF laws hdr Cons.prems(1) step new]
    have inv1: "run_inv orm model hdr (insert row D) st1 (db w1)" .
    from Cons.prems(2) have d: "distinct (filter (\<lambda>p. p \<noteq> VNone) (map ?pk rows))"
      by (simp split: if_splits)
    have fresh: "?pk r \<notin> ?pk ` insert row D" if r: "r \<in> set rows" and nn: "?pk r \<noteq> VNone" for r
    proof
      assume "?pk r \<in> ?pk ` insert row D"
      then have "?pk r = ?pk row \<or> ?pk r \<in> ?pk ` D" by auto
      then show False
      proof
        assume eq: "?pk r = ?pk row"
        with nn have nn': "?pk row \<noteq> VNone" by simp
        from r nn have "?pk r \<in> set (filter (\<lambda>p. p \<noteq> VNone) (map ?pk rows))" by auto
        with eq have "?pk row \<in> set (filter (\<lambda>p. p \<noteq> VNone) (map ?pk rows))" by simp
        with Cons.prems(2) nn' show False by simp
      next
        assume "?pk r \<in> ?pk ` D"
        moreover from r have "r \<in> set (row # rows)" by simp
        ultimately show False using Cons.prems(3) [of r] nn by blast
      qed
    qed
    from Cons.IH [OF inv1 d fresh rest]
    have "run_inv orm model hdr (insert row D \<union> set rows) st' (db w')" by blast
    then show ?thesis by simp
  qed
qed

lemma dict_of_db:
  "map_of (AList.updates (map inst_pk d) d []) p = Some m \<Longrightarrow> m \<in> set d \<and> inst_pk m = p"
proof -
  assume "map_of (AList.updates (map inst_pk d) d []) p = Some m"
  then have "map_of (rev (zip (map inst_pk d) d)) p = Some m"
    by (simp add: updates_conv' map_upds_def)
  then have "(p, m) \<in> set (zip (map inst_pk d) d)"
    by (auto dest: map_of_SomeD)
  then show ?thesis by (auto simp: zip_map1 zip_same)
qed

lemma dict_of_db_keys: "fst ` set (AList.updates (map inst_pk d) d []) = inst_pk ` set d"
  by (simp add: keys_updates)

lemma dict_of_db_mem:
  assumes ok: "keys_ok model d" and m: "m \<in> set d"
  shows "map_of (AList.updates (map inst_pk d) d []) (inst_pk m) = Some m"
proof -
  let ?E = "AList.updates (map inst_pk d) d []"
  from m have "inst_pk m \<in> inst_pk ` set d" by (rule imageI)
  then have "inst_pk m \<in> fst ` set ?E" by (simp only: dict_of_db_keys)
  then have "map_of ?E (inst_pk m) \<noteq> None" by (simp add: map_of_eq_None_iff)
  then obtain x where x: "map_of ?E (inst_pk m) = Some x" by blast
  from dict_of_db [OF x] have "x \<in> set d" "inst_pk x = inst_pk m" by simp_all
  with ok m have "x = m" by (blast intro: keys_ok_unique)
  with x show ?thesis by simp
qed

lemma dict_of_db_none:
  assumes "p \<notin> inst_pk ` set d"
  shows "map_of (AList.updates (map inst_pk d) d []) p = None"
  using assms by (simp add: map_of_eq_None_iff dict_of_db_keys)

lemma run_inv_init:
  assumes "keys_ok model (stored orm model d)"
  shows "run_inv orm model hdr {}
           \<lparr>existing_model_map =
              AList.updates (map inst_pk (stored orm model d)) (stored orm model d) [],
            updated_model_count = 0, unsaved_models = []\<rparr> d"
proof -
  let ?S = "stored orm model d"
  let ?E = "AList.updates (map inst_pk ?S) ?S []"
  let ?st = "\<lparr>existing_model_map = ?E, updated_model_count = 0, unsaved_models = []\<rparr>"
  have E: "existing_model_map ?st = ?E" "unsaved_models ?st = []" by simp_all
  have 2: "p \<noteq> VNone \<and> inst_pk m = p \<and> inst_class m = model \<and>
        (\<exists>m'\<in>set ?S. agrees model m' m)"
    if "map_of ?E p = Some m" for p m
  proof -
    from dict_of_db [OF that] have m: "m \<in> set ?S" "inst_pk m = p" by simp_all
    from keys_ok_nonnull [OF assms m(1)] m(2) have "p \<noteq> VNone" by simp
    moreover from assms m(1) have "inst_class m = model" by (rule keys_ok_class)
    moreover have "agrees model m m" by (rule agrees_refl)
    ultimately show ?thesis using m by blast
  qed
  show ?thesis
    unfolding run_inv_def E
  proof (intro conjI)
    show "keys_ok model ?S" by (rule assms)
    show "\<forall>p m. map_of ?E p = Some m \<longrightarrow>
        p \<noteq> VNone \<and> inst_pk m = p \<and> inst_class m = model \<and>
        (\<exists>m'\<in>set ?S. agrees model m' m)" using 2 by blast
  qed simp_all
qed

text \<open>The bulk insert: every chunk accepted.\<close>

lemma bulk_create_chunks_stored:
  assumes laws: "keeps_saved orm model"
    and cls: "\<forall>u\<in>set xs. inst_class u = model"
  shows "keys_ok model (stored orm model (db w)) \<Longrightarrow>
         bulk_create_chunks orm model xs c starts w = (Inr u, w') \<Longrightarrow>
         keys_ok model (stored orm model (db w')) \<and>
         set (stored orm model (db w)) \<subseteq> set (stored orm model (db w')) \<and>
         (\<forall>i\<in>set starts. \<forall>x\<in>set (slice xs i c). inst_pk x \<noteq> VNone \<longrightarrow>
            (\<exists>m\<in>set (stored orm model (db w')). agrees model m x))"
proof (induction starts arbitrary: w)
  case Nil
  then show ?case by simp
next
  case (Cons i starts)
  let ?chunk = "slice xs i c"
  have sub: "set ?chunk \<subseteq> set xs"
    unfolding slice_def by (meson set_take_subset set_drop_subset subset_trans)
  with cls have ccls: "\<forall>u\<in>set ?chunk. inst_class u = model" by blast
  obtain r1 w1 where b: "bulk_create orm model ?chunk w = (r1, w1)"
    by (cases "bulk_create orm model ?chunk w")
  show ?case
  proof (cases r1)
    case (Inl e)
    with Cons.prems(2) b show ?thesis by simp
  next
    case (Inr u1)
    with Cons.prems(2) b have rest: "bulk_create_chunks orm model xs c starts w1 = (Inr u, w')"
      by simp
    from b Inr have ok: "orm_bulk_create orm model ?chunk (db w) = Inr (db w1)"
      by (auto simp: bulk_create_def split: sum.splits)
    note bl = bulk_laws [OF laws ccls Cons.prems(1) ok]
    from Cons.IH [OF bl(1) rest] have ih:
      "keys_ok model (stored orm model (db w'))"
      "set (stored orm model (db w1)) \<subseteq> set (stored orm model (db w'))"
      "\<forall>i\<in>set starts. \<forall>x\<in>set (slice xs i c). inst_pk x \<noteq> VNone \<longrightarrow>
            (\<exists>m\<in>set (stored orm model (db w')). agrees model m x)"
      by blast+
    have first: "\<exists>m\<in>set (stored orm model (db w')). agrees model m x"
      if "x \<in> set ?chunk" "inst_pk x \<noteq> VNone" for x
    proof -
      from bl(3) [OF that] obtain m where "m \<in> set (stored orm model (db w1))"
        "agrees model m x" by blast
      with ih(2) show ?thesis by blast
    qed
    from bl(2) ih(2) have "set (stored orm model (db w)) \<subseteq> set (stored orm model (db w'))"
      by blast
    with ih(1) ih(3) first show ?thesis by simp
  qed
qed

lemma slices_cover:
  assumes c: "0 < c" and x: "x \<in> set xs"
  shows "\<exists>i\<in>set (map (\<lambda>j. j * c) [0 ..< (length xs + c - 1) div c]). x \<in> set (slice xs i c)"
proof -
  from chunks_of_props(1) [OF c, of xs] x have "x \<in> set (concat (chunks_of c xs))" by simp
  then obtain ch where "ch \<in> set (chunks_of c xs)" "x \<in> set ch" by auto
  then show ?thesis by (auto simp: chunks_of_def)
qed

lemma chunked_bulk_create_stored:
  assumes laws: "keeps_saved orm model"
    and cls: "\<forall>u\<in>set xs. inst_class u = model"
    and cs: "get_setting settings ''BULK_CREATE_CHUNK_SIZE'' = Inr chunk_size"
    and pos: "0 < chunk_size"
    and ok: "keys_ok model (stored orm model (db w))"
    and run: "chunked_bulk_create orm settings model xs None w = (Inr u, w')"
  shows "keys_ok model (stored orm model (db w'))"
    and "set (stored orm model (db w)) \<subseteq> set (stored orm model (db w'))"
    and "x \<in> set xs \<Longrightarrow> inst_pk x \<noteq> VNone \<Longrightarrow>
         \<exists>m\<in>set (stored orm model (db w')). agrees model m x"
proof -
  let ?c = "nat chunk_size"
  let ?starts = "map (\<lambda>j. j * ?c) [0 ..< (length xs + ?c - 1) div ?c]"
  from pos have c: "0 < ?c" by simp
  from pos have "py_range (length xs) chunk_size = Inr ?starts" by (simp add: py_range_def)
  with cs run have "bulk_create_chunks orm model xs ?c ?starts w = (Inr u, w')"
    by (simp add: chunked_bulk_create_def)
  from bulk_create_chunks_stored [OF laws cls ok this]
  have *: "keys_ok model (stored orm model (db w'))"
      "set (stored orm model (db w)) \<subseteq> set (stored orm model (db w'))"
      "\<forall>i\<in>set ?starts. \<forall>x\<in>set (slice xs i ?c). inst_pk x \<noteq> VNone \<longrightarrow>
            (\<exists>m\<in>set (stored orm model (db w')). agrees model m x)"
    by blast+
  from *(1) show "keys_ok model (stored orm model (db w'))" .
  from *(2) show "set (stored orm model (db w)) \<subseteq> set (stored orm model (db w'))" .
  show "\<exists>m\<in>set (stored orm model (db w')). agrees model m x"
    if "x \<in> set xs" "inst_pk x \<noteq> VNone"
  proof -
    from slices_cover [OF c that(1)] obtain i where "i \<in> set ?starts" "x \<in> set (slice xs i ?c)"
      by blast
    with *(3) that(2) show ?thesis by blast
  qed
qed


text \<open>The second run: a row whose key is loaded and whose values are there already, and a
  row without key.\<close>

lemma rerun_row_match:
  assumes "map_of (existing_model_map st) (row_pk model hdr row) = Some m"
    and "will_model_change (row_vm hdr row) m = Inr False"
  shows "todjango_row orm model True ubc hdr row st w = (Inr st, w)"
  using assms by (simp add: todjango_row_def Let_def row_pk_def row_vm_def)

lemma rerun_row_new:
  assumes "map_of (existing_model_map st) (row_pk model hdr row) = None"
    and "orm_construct orm model (row_vm hdr row) = Inr obj"
  shows "todjango_row orm model True ubc hdr row st w =
           (if ubc then (Inr (st\<lparr>unsaved_models := unsaved_models st @ [obj]\<rparr>), w)
            else (case orm_save orm obj (db w) of
                    Inl e \<Rightarrow> (Inl (Raised (e\<lparr>petl_data := Some (row_vm hdr row)\<rparr>)),
                              w\<lparr>calls := calls w @ [CallSave obj]\<rparr>)
                  | Inr d \<Rightarrow> (Inr st, \<lparr>db = d, calls = calls w @ [CallSave obj]\<rparr>)))"
  using assms
  by (simp add: todjango_row_def Let_def row_pk_def row_vm_def save_def split: sum.splits)

lemma rerun_rows:
  "existing_model_map st = E \<Longrightarrow>
   (\<And>row. row \<in> set rows \<Longrightarrow> row_pk model hdr row \<noteq> VNone \<Longrightarrow>
      \<exists>m. map_of E (row_pk model hdr row) = Some m \<and>
          will_model_change (row_vm hdr row) m = Inr False) \<Longrightarrow>
   map_of E VNone = None \<Longrightarrow>
   (\<And>row. row \<in> set rows \<Longrightarrow> row_pk model hdr row = VNone \<Longrightarrow>
      \<exists>obj. orm_construct orm model (row_vm hdr row) = Inr obj) \<Longrightarrow>
   todjango_rows orm model True ubc hdr rows st w = (r, w') \<Longrightarrow>
   \<exists>new. calls w' = calls w @ new \<and>
     (\<forall>c\<in>set new. \<exists>row\<in>set rows. \<exists>obj. row_pk model hdr row = VNone \<and>
        orm_construct orm model (row_vm hdr row) = Inr obj \<and> c = CallSave obj) \<and>
     ((\<exists>st'. r = Inr st' \<and> updated_model_count st' = updated_model_count st) \<or>
      (\<exists>e. r = Inl (Raised e))) \<and>
     ((\<forall>row\<in>set rows. row_pk model hdr row \<noteq> VNone) \<longrightarrow> r = Inr st \<and> w' = w)"
proof (induction rows arbitrary: st w)
  case Nil
  then show ?case by auto
next
  case (Cons row rows)
  let ?p = "row_pk model hdr row" and ?vm = "row_vm hdr row"
  let ?null = "\<lambda>row obj c. row_pk model hdr row = VNone \<and>
        orm_construct orm model (row_vm hdr row) = Inr obj \<and> c = CallSave obj"
  have e1: "\<exists>m. map_of E (row_pk model hdr r) = Some m \<and>
          will_model_change (row_vm hdr r) m = Inr False"
    if "r \<in> set rows" "row_pk model hdr r \<noteq> VNone" for r
    using Cons.prems(2) [of r] that by simp
  have e3: "\<exists>obj. orm_construct orm model (row_vm hdr r) = Inr obj"
    if "r \<in> set rows" "row_pk model hdr r = VNone" for r
    using Cons.prems(4) [of r] that by simp
  have ih: "\<exists>new. calls w' = calls w1 @ new \<and>
     (\<forall>c\<in>set new. \<exists>row\<in>set rows. \<exists>obj. ?null row obj c) \<and>
     ((\<exists>st'. r = Inr st' \<and> updated_model_count st' = updated_model_count st1) \<or>
      (\<exists>e. r = Inl (Raised e))) \<and>
     ((\<forall>row\<in>set rows. row_pk model hdr row \<noteq> VNone) \<longrightarrow> r = Inr st1 \<and> w' = w1)"
    if "existing_model_map st1 = E"
      and "todjango_rows orm model True ubc hdr rows st1 w1 = (r, w')" for st1 w1
  proof (rule Cons.IH [OF that(1) _ Cons.prems(3) _ that(2)])
    fix r assume "r \<in> set rows" "row_pk model hdr r \<noteq> VNone"
    then show "\<exists>m. map_of E (row_pk model hdr r) = Some m \<and>
          will_model_change (row_vm hdr r) m = Inr False" by (rule e1)
  next
    fix r assume "r \<in> set rows" "row_pk model hdr r = VNone"
    then show "\<exists>obj. orm_construct orm model (row_vm hdr r) = Inr obj" by (rule e3)
  qed
  show ?case
  proof (cases "?p = VNone")
    case False
    from Cons.prems(2) [of row] False obtain m where m: "map_of E ?p = Some m"
      "will_model_change ?vm m = Inr False" by auto
    from m Cons.prems(1) have "todjango_row orm model True ubc hdr row st w = (Inr st, w)"
      by (simp add: rerun_row_match)
    with Cons.prems(5) have rest: "todjango_rows orm model True ubc hdr rows st w = (r, w')"
      by simp
    from ih [OF Cons.prems(1) rest] obtain new where new: "calls w' = calls w @ new"
      "\<forall>c\<in>set new. \<exists>row\<in>set rows. \<exists>obj. ?null row obj c"
      "(\<exists>st'. r = Inr st' \<and> updated_model_count st' = updated_model_count st) \<or>
       (\<exists>e. r = Inl (Raised e))"
      "(\<forall>row\<in>set rows. row_pk model hdr row \<noteq> VNone) \<longrightarrow> r = Inr st \<and> w' = w"
      by blast
    from new(2) have "\<forall>c\<in>set new. \<exists>row\<in>set (row # rows). \<exists>obj. ?null row obj c"
      by fastforce
    moreover from new(4) have
      "(\<forall>row\<in>set (row # rows). row_pk model hdr row \<noteq> VNone) \<longrightarrow> r = Inr st \<and> w' = w"
      by simp
    ultimately show ?thesis using new(1) new(3) by blast
  next
    case True
    from Cons.prems(4) [of row] True obtain obj where
      obj: "orm_construct orm model ?vm = Inr obj" by auto
    from True Cons.prems(1,3) have none: "map_of (existing_model_map st) ?p = None" by simp
    note row = rerun_row_new [OF none obj, of ubc w]
    have last: "\<not> (\<forall>row\<in>set (row # rows). row_pk model hdr row \<noteq> VNone)"
      using True by simp
    show ?thesis
    proof (cases ubc)
      case ubc: True
      let ?st1 = "st\<lparr>unsaved_models := unsaved_models st @ [obj]\<rparr>"
      from row ubc Cons.prems(5) have
        rest: "todjango_rows orm model True ubc hdr rows ?st1 w = (r, w')" by simp
      have E1: "existing_model_map ?st1 = E" using Cons.prems(1) by simp
      from ih [OF E1 rest] obtain new where new: "calls w' = calls w @ new"
        "\<forall>c\<in>set new. \<exists>row\<in>set rows. \<exists>obj. ?null row obj c"
        "(\<exists>st'. r = Inr st' \<and> updated_model_count st' = updated_model_count ?st1) \<or>
         (\<exists>e. r = Inl (Raised e))"
        by blast
      from new(2) have "\<forall>c\<in>set new. \<exists>row\<in>set (row # rows). \<exists>obj. ?null row obj c"
        by fastforce
      moreover from new(3) have
        "(\<exists>st'. r = Inr st' \<and> updated_model_count st' = updated_model_count st) \<or>
         (\<exists>e. r = Inl (Raised e))" by simp
      ultimately show ?thesis using new(1) last by blast
    next
      case noubc: False
      show ?thesis
      proof (cases "orm_save orm obj (db w)")
        case (Inl e)
        with row noubc Cons.prems(5) have
          "r = Inl (Raised (e\<lparr>petl_data := Some ?vm\<rparr>))"
          "w' = w\<lparr>calls := calls w @ [CallSave obj]\<rparr>" by simp_all
        then have "calls w' = calls w @ [CallSave obj]" "\<exists>e. r = Inl (Raised e)" by simp_all
        moreover have "\<forall>c\<in>set [CallSave obj]. \<exists>row\<in>set (row # rows). \<exists>obj. ?null row obj c"
          using True obj by simp
        ultimately show ?thesis using last by blast
      next
        case (Inr d)
        let ?w1 = "\<lparr>db = d, calls = calls w @ [CallSave obj]\<rparr>"
        from row noubc Inr Cons.prems(5) have
          rest: "todjango_rows orm model True ubc hdr rows st ?w1 = (r, w')" by simp
        from ih [OF Cons.prems(1) rest] obtain new where new:
          "calls w' = calls ?w1 @ new"
          "\<forall>c\<in>set new. \<exists>row\<in>set rows. \<exists>obj. ?null row obj c"
          "(\<exists>st'. r = Inr st' \<and> updated_model_count st' = updated_model_count st) \<or>
           (\<exists>e. r = Inl (Raised e))"
          by blast
        from new(1) have c: "calls w' = calls w @ (CallSave obj # new)" by simp
        from new(2) True obj have
          "\<forall>c\<in>set (CallSave obj # new). \<exists>row\<in>set (row # rows). \<exists>obj. ?null row obj c"
          by fastforce
        with c new(3) last show ?thesis by blast
      qed
    qed
  qed
qed


text \<open>The parts of a run that succeeds.\<close>

lemma load_existing_ok:
  assumes laws: "keeps_saved orm model"
    and load: "load_existing orm model True w = (Inr E, wa)"
  shows "E = AList.updates (map inst_pk (stored orm model (db w))) (stored orm model (db w)) []"
    and "wa = w\<lparr>calls := calls w @ [CallAll model]\<rparr>"
    and "pk_name model \<in> set (get_model_field_names model)"
  using load load_laws [OF laws, of "db w"]
  by (auto simp: load_existing_def get_django_objects_def objects_all_def Let_def
      split: if_splits)

lemma load_existing_run:
  assumes laws: "keeps_saved orm model"
    and pkf: "pk_name model \<in> set (get_model_field_names model)"
  shows "load_existing orm model True w =
           (Inr (AList.updates (map inst_pk (stored orm model (db w)))
                   (stored orm model (db w)) []),
            w\<lparr>calls := calls w @ [CallAll model]\<rparr>)"
  using pkf load_laws [OF laws, of "db w"]
  by (simp add: load_existing_def get_django_objects_def objects_all_def Let_def)

lemma todjango_body_ok:
  assumes "todjango_body orm settings model update ubc hdr rows w = (Inr res, w')"
  shows "\<exists>E wa st wb.
           load_existing orm model update w = (Inr E, wa) \<and>
           todjango_rows orm model update ubc hdr rows
             \<lparr>existing_model_map = E, updated_model_count = 0, unsaved_models = []\<rparr> wa =
             (Inr st, wb) \<and>
           (if ubc then chunked_bulk_create orm settings model (unsaved_models st) None wb
            else (Inr (), wb)) = (Inr (), w')"
proof -
  obtain r1 wa where l: "load_existing orm model update w = (r1, wa)"
    by (cases "load_existing orm model update w")
  with assms obtain E where E: "r1 = Inr E"
    by (cases r1) (simp_all add: todjango_body_def)
  let ?st0 = "\<lparr>existing_model_map = E, updated_model_count = 0, unsaved_models = []\<rparr>"
  obtain r2 wb where t: "todjango_rows orm model update ubc hdr rows ?st0 wa = (r2, wb)"
    by (cases "todjango_rows orm model update ubc hdr rows ?st0 wa")
  with assms l E obtain st where st: "r2 = Inr st"
    by (cases r2) (simp_all add: todjango_body_def)
  let ?b = "if ubc then chunked_bulk_create orm settings model (unsaved_models st) None wb
            else (Inr (), wb)"
  obtain r3 w3 where b: "?b = (r3, w3)" by (cases ?b)
  with assms l E t st have "r3 = Inr ()" "w3 = w'"
    by (cases r3; simp add: todjango_body_def)+
  with l E t st b show ?thesis by blast
qed

lemma todjango_row_unsaved:
  "todjango_row orm model update False hdr row st w = (Inr st', w') \<Longrightarrow>
   unsaved_models st' = unsaved_models st"
  by (auto simp: todjango_row_def Let_def
      split: if_splits option.splits sum.splits bool.splits prod.splits)

lemma todjango_rows_unsaved:
  "todjango_rows orm model update False hdr rows st w = (Inr st', w') \<Longrightarrow>
   unsaved_models st' = unsaved_models st"
proof (induction rows arbitrary: st w)
  case Nil
  then show ?case by simp
next
  case (Cons row rows)
  obtain r1 w1 where s1: "todjango_row orm model update False hdr row st w = (r1, w1)"
    by (cases "todjango_row orm model update False hdr row st w")
  show ?case
  proof (cases r1)
    case (Inl e)
    with Cons.prems s1 show ?thesis by simp
  next
    case (Inr st1)
    with Cons.prems s1 have
      "todjango_rows orm model update False hdr rows st1 w1 = (Inr st', w')" by simp
    from Cons.IH [OF this] todjango_row_unsaved [of orm model update hdr row st w st1 w1]
      s1 Inr show ?thesis by simp
  qed
qed

lemma chunked_bulk_create_shape:
  assumes cs: "get_setting settings ''BULK_CREATE_CHUNK_SIZE'' = Inr chunk_size"
    and pos: "0 < chunk_size"
    and run: "chunked_bulk_create orm settings model xs None w = (r, w')"
  shows "\<exists>new. calls w' = calls w @ new \<and> (\<forall>obj. CallSave obj \<notin> set new) \<and>
           (r = Inr () \<or> (\<exists>e. r = Inl (Raised e))) \<and> (xs = [] \<longrightarrow> r = Inr () \<and> w' = w)"
proof -
  let ?c = "nat chunk_size"
  let ?starts = "map (\<lambda>j. j * ?c) [0 ..< (length xs + ?c - 1) div ?c]"
  from pos have "py_range (length xs) chunk_size = Inr ?starts" by (simp add: py_range_def)
  with cs run have b: "bulk_create_chunks orm model xs ?c ?starts w = (r, w')"
    by (simp add: chunked_bulk_create_def)
  from bulk_create_chunks_calls [OF b] obtain k where
    k: "calls w' = calls w @ map (\<lambda>i. CallBulkCreate (slice xs i ?c)) (take k ?starts)"
      "r = Inr () \<or> (\<exists>e. r = Inl (Raised e))"
    by blast
  have "\<forall>obj. CallSave obj \<notin> set (map (\<lambda>i. CallBulkCreate (slice xs i ?c)) (take k ?starts))"
    by auto
  moreover have "r = Inr () \<and> w' = w" if "xs = []"
  proof -
    from pos that have "?starts = []" by simp
    with b show ?thesis by simp
  qed
  ultimately show ?thesis using k by blast
qed


text \<open>
  C5, as amended. Take an ORM that keeps what is saved (\<open>keeps_saved\<close>), a well-keyed table
  of the model, an input table whose column names are fields of the model with no property
  or other descriptor of the class under their names, no two rows of which carry the same
  primary key (rows without one apart), and, with \<open>use_bulk_create\<close>, a positive chunk size.
  When a first run of \<^verbatim>\<open>todjango\<close> with \<open>update\<close> set completes without error, a second run
  with the same arguments, over the storage the first one left:
  \<^item> finds, for every row, that each stored instance with the row's primary key holds the
    row's values already: \<^verbatim>\<open>_will_model_change\<close> returns \<open>False\<close> for it;
  \<^item> issues, after the load of the existing instances, no \<^verbatim>\<open>save\<close> but that of a new
    instance built from a row without primary key: no instance is saved for an update;
  \<^item> either returns with the updated-count 0, or raises an exception of the storage;
  \<^item> and when every row has a primary key, it returns the counts \<open>(0, 0)\<close>, having
    issued the load as its only storage call and left the storage as it was.
\<close>

theorem todjango_rerun:
  assumes laws: "keeps_saved orm model"
    and ok0: "keys_ok model (stored orm model (db w0))"
    and lg: "legacy_next tbl"
    and tbl: "table_rows tbl = Some (hdr, rows)"
    and hdr: "\<forall>k\<in>set hdr. k \<in> set (field_names model) \<and> plain_name model k"
    and dist: "distinct (filter (\<lambda>p. p \<noteq> VNone) (map (row_pk model hdr) rows))"
    and size: "ubc \<longrightarrow> 0 < (case map_of settings ''BULK_CREATE_CHUNK_SIZE'' of
                                Some v \<Rightarrow> v | None \<Rightarrow> 50)"
    and run1: "todjango orm settings tbl (ModelClass model) True create ubc w0 = (Inr res1, w1)"
    and run2: "todjango orm settings tbl (ModelClass model) True create ubc w1 = (r2, w2)"
  shows "(\<forall>row\<in>set rows. \<forall>m\<in>set (stored orm model (db w1)).
            inst_pk m = row_pk model hdr row \<longrightarrow>
            will_model_change (row_vm hdr row) m = Inr False) \<and>
         (\<exists>new. calls w2 = calls w1 @ CallAll model # new \<and>
            (\<forall>obj. CallSave obj \<in> set new \<longrightarrow>
               (\<exists>row\<in>set rows. row_pk model hdr row = VNone \<and>
                  orm_construct orm model (row_vm hdr row) = Inr obj))) \<and>
         ((\<exists>n. r2 = Inr (0, n)) \<or> (\<exists>e. r2 = Inl (Raised e))) \<and>
         ((\<forall>row\<in>set rows. row_pk model hdr row \<noteq> VNone) \<longrightarrow>
            r2 = Inr (0, 0) \<and> w2 = \<lparr>db = db w1, calls = calls w1 @ [CallAll model]\<rparr>)"
proof -
  let ?pk = "row_pk model hdr"
  let ?S = "\<lambda>w. stored orm model (db w)"
  let ?c = "case map_of settings ''BULK_CREATE_CHUNK_SIZE'' of Some v \<Rightarrow> v | None \<Rightarrow> 50"
  have cs: "get_setting settings ''BULK_CREATE_CHUNK_SIZE'' = Inr ?c"
    by (simp add: get_setting_def DEFAULTS_def)
  from size have pos: "0 < ?c" if ubc using that by simp
  have fields: "fst ` set (row_vm hdr row) \<subseteq> set (field_names model)"
    and plain: "\<forall>k\<in>fst ` set (row_vm hdr row). plain_name model k" for row
    using keys_row_vm [of hdr row] hdr by blast+
  \<comment> \<open>the first run\<close>
  from run1 lg tbl have "todjango_body orm settings model True ubc hdr rows w0 = (Inr res1, w1)"
    by (simp add: todjango_def)
  from todjango_body_ok [OF this] obtain E1 wa st1 wb where
    load1: "load_existing orm model True w0 = (Inr E1, wa)"
    and loop1: "todjango_rows orm model True ubc hdr rows
             \<lparr>existing_model_map = E1, updated_model_count = 0, unsaved_models = []\<rparr> wa =
             (Inr st1, wb)"
    and bulk1: "(if ubc then chunked_bulk_create orm settings model (unsaved_models st1) None wb
            else (Inr (), wb)) = (Inr (), w1)"
    by blast
  note l1 = load_existing_ok [OF laws load1]
  from l1(2) have dba: "db wa = db w0" by simp
  from run_inv_init [OF ok0, of hdr] l1(1) dba
  have inv0: "run_inv orm model hdr {}
           \<lparr>existing_model_map = E1, updated_model_count = 0, unsaved_models = []\<rparr> (db wa)"
    by simp
  from run_inv_rows [OF laws hdr inv0 dist _ loop1]
  have inv1: "run_inv orm model hdr (set rows) st1 (db wb)" by simp
  then have K1: "keys_ok model (?S wb)"
    and K3: "\<And>r. r \<in> set rows \<Longrightarrow> ?pk r \<noteq> VNone \<Longrightarrow>
               \<exists>m\<in>set (?S wb) \<union> set (unsaved_models st1).
                  inst_pk m = ?pk r \<and> matches (row_vm hdr r) m"
    and K4: "\<forall>u\<in>set (unsaved_models st1). inst_class u = model"
    and K5: "\<And>r. r \<in> set rows \<Longrightarrow> ?pk r = VNone \<Longrightarrow>
               \<exists>obj. orm_construct orm model (row_vm hdr r) = Inr obj"
    unfolding run_inv_def by blast+
  \<comment> \<open>the table after the first run\<close>
  have ok1: "keys_ok model (?S w1)"
  proof (cases ubc)
    case True
    with bulk1 have "chunked_bulk_create orm settings model (unsaved_models st1) None wb =
                       (Inr (), w1)" by simp
    from chunked_bulk_create_stored(1) [OF laws K4 cs pos [OF True] K1 this] show ?thesis .
  next
    case False
    with bulk1 K1 show ?thesis by simp
  qed
  have F: "\<exists>m\<in>set (?S w1). inst_pk m = ?pk r \<and> matches (row_vm hdr r) m"
    if "r \<in> set rows" "?pk r \<noteq> VNone" for r
  proof -
    from K3 [OF that] obtain m where m: "m \<in> set (?S wb) \<union> set (unsaved_models st1)"
      "inst_pk m = ?pk r" "matches (row_vm hdr r) m" by blast
    show "\<exists>m\<in>set (?S w1). inst_pk m = ?pk r \<and> matches (row_vm hdr r) m"
    proof (cases ubc)
      case True
      with bulk1 have b: "chunked_bulk_create orm settings model (unsaved_models st1) None wb =
                         (Inr (), w1)" by simp
      note cb = chunked_bulk_create_stored [OF laws K4 cs pos [OF True] K1 b]
      from m(1) show ?thesis
      proof
        assume "m \<in> set (?S wb)"
        with cb(2) have "m \<in> set (?S w1)" by blast
        with m(2,3) show ?thesis by blast
      next
        assume u: "m \<in> set (unsaved_models st1)"
        from m(2) that(2) have "inst_pk m \<noteq> VNone" by simp
        from cb(3) [OF u this] obtain m' where m': "m' \<in> set (?S w1)" "agrees model m' m"
          by blast
        from agrees_matches [OF m'(2) m(3) fields] have "matches (row_vm hdr r) m'" .
        moreover from m'(2) m(2) have "inst_pk m' = ?pk r" by (simp add: agrees_def)
        ultimately show ?thesis using m'(1) by blast
      qed
    next
      case False
      with loop1 have "unsaved_models st1 = []"
        using todjango_rows_unsaved [of orm model True hdr rows _ wa st1 wb] by simp
      with m(1) False bulk1 have "m \<in> set (?S w1)" by simp
      with m(2,3) show ?thesis by blast
    qed
  qed
  have same: "will_model_change (row_vm hdr r) m = Inr False"
    if r: "r \<in> set rows" and m: "m \<in> set (?S w1)" and eq: "inst_pk m = ?pk r" for r m
  proof -
    from keys_ok_nonnull [OF ok1 m] eq have nn: "?pk r \<noteq> VNone" by simp
    from F [OF r nn] obtain m' where m': "m' \<in> set (?S w1)" "inst_pk m' = ?pk r"
      "matches (row_vm hdr r) m'" by blast
    from keys_ok_unique [OF ok1 m'(1) m] m'(2) eq have "m' = m" by simp
    with m'(3) have "matches (row_vm hdr r) m" by simp
    moreover from keys_ok_class [OF ok1 m] plain
    have "\<forall>k\<in>fst ` set (row_vm hdr r). plain_name (inst_class m) k" by simp
    ultimately show ?thesis by (simp add: will_model_change_plain)
  qed
  \<comment> \<open>the second run\<close>
  let ?E2 = "AList.updates (map inst_pk (?S w1)) (?S w1) []"
  let ?wa2 = "w1\<lparr>calls := calls w1 @ [CallAll model]\<rparr>"
  let ?st0 = "\<lparr>existing_model_map = ?E2, updated_model_count = 0, unsaved_models = []\<rparr>"
  note load2 = load_existing_run [OF laws l1(3), of w1]
  have e1: "\<exists>m. map_of ?E2 (?pk r) = Some m \<and> will_model_change (row_vm hdr r) m = Inr False"
    if r: "r \<in> set rows" and nn: "?pk r \<noteq> VNone" for r
  proof -
    from F [OF r nn] obtain m where m: "m \<in> set (?S w1)" "inst_pk m = ?pk r" by blast
    from dict_of_db_mem [OF ok1 m(1)] m(2) have "map_of ?E2 (?pk r) = Some m" by simp
    with same [OF r m] show ?thesis by blast
  qed
  have e2: "map_of ?E2 VNone = None"
  proof (rule dict_of_db_none)
    from ok1 show "VNone \<notin> inst_pk ` set (?S w1)" by (simp add: keys_ok_def)
  qed
  obtain r wb2 where loop2: "todjango_rows orm model True ubc hdr rows ?st0 ?wa2 = (r, wb2)"
    by (cases "todjango_rows orm model True ubc hdr rows ?st0 ?wa2")
  have "existing_model_map ?st0 = ?E2" by simp
  from rerun_rows [OF this e1 e2 K5 loop2] obtain new where
    new: "calls wb2 = calls ?wa2 @ new"
      "\<forall>c\<in>set new. \<exists>row\<in>set rows. \<exists>obj. ?pk row = VNone \<and>
          orm_construct orm model (row_vm hdr row) = Inr obj \<and> c = CallSave obj"
      "(\<exists>st'. r = Inr st' \<and> updated_model_count st' = updated_model_count ?st0) \<or>
       (\<exists>e. r = Inl (Raised e))"
      "(\<forall>row\<in>set rows. ?pk row \<noteq> VNone) \<longrightarrow> r = Inr ?st0 \<and> wb2 = ?wa2"
    by blast
  have saves: "\<exists>row\<in>set rows. ?pk row = VNone \<and>
                 orm_construct orm model (row_vm hdr row) = Inr obj"
    if "CallSave obj \<in> set new" for obj
    using new(2) that by fastforce
  from run2 lg tbl have body2:
    "todjango_body orm settings model True ubc hdr rows w1 = (r2, w2)"
    by (simp add: todjango_def)
  have main: "(\<exists>new. calls w2 = calls w1 @ CallAll model # new \<and>
            (\<forall>obj. CallSave obj \<in> set new \<longrightarrow>
               (\<exists>row\<in>set rows. ?pk row = VNone \<and>
                  orm_construct orm model (row_vm hdr row) = Inr obj))) \<and>
         ((\<exists>n. r2 = Inr (0, n)) \<or> (\<exists>e. r2 = Inl (Raised e))) \<and>
         ((\<forall>row\<in>set rows. ?pk row \<noteq> VNone) \<longrightarrow>
            r2 = Inr (0, 0) \<and> w2 = \<lparr>db = db w1, calls = calls w1 @ [CallAll model]\<rparr>)"
  proof (cases r)
    case (Inl err)
    with body2 load2 loop2 have res: "r2 = Inl err" "w2 = wb2"
      by (simp_all add: todjango_body_def)
    from new(3) Inl obtain e where "err = Raised e" by auto
    with res have "\<exists>e. r2 = Inl (Raised e)" by simp
    moreover from new(4) Inl have "\<not> (\<forall>row\<in>set rows. ?pk row \<noteq> VNone)" by auto
    moreover from res new(1) have "calls w2 = calls w1 @ CallAll model # new" by simp
    ultimately show ?thesis using saves by blast
  next
    case (Inr st2)
    with new(3) have count: "updated_model_count st2 = 0" by simp
    show ?thesis
    proof (cases ubc)
      case False
      with body2 load2 loop2 Inr count have res:
        "r2 = Inr (0, length (unsaved_models st2))" "w2 = wb2"
        by (simp_all add: todjango_body_def)
      from res new(1) have c: "calls w2 = calls w1 @ CallAll model # new" by simp
      have "r2 = Inr (0, 0) \<and> w2 = \<lparr>db = db w1, calls = calls w1 @ [CallAll model]\<rparr>"
        if "\<forall>row\<in>set rows. ?pk row \<noteq> VNone"
      proof -
        from new(4) that Inr have "st2 = ?st0" "wb2 = ?wa2" by simp_all
        with res show ?thesis by simp
      qed
      with c res(1) saves show ?thesis by blast
    next
      case True
      obtain rb w3 where b:
        "chunked_bulk_create orm settings model (unsaved_models st2) None wb2 = (rb, w3)"
        by (cases "chunked_bulk_create orm settings model (unsaved_models st2) None wb2")
      from chunked_bulk_create_shape [OF cs pos [OF True] b] obtain new2 where
        n2: "calls w3 = calls wb2 @ new2" "\<forall>obj. CallSave obj \<notin> set new2"
          "rb = Inr () \<or> (\<exists>e. rb = Inl (Raised e))"
          "unsaved_models st2 = [] \<longrightarrow> rb = Inr () \<and> w3 = wb2"
        by blast
      from body2 load2 loop2 Inr True b have w2: "w2 = w3"
        by (cases rb) (simp_all add: todjango_body_def)
      from body2 load2 loop2 Inr True b count have r2:
        "rb = Inr () \<Longrightarrow> r2 = Inr (0, length (unsaved_models st2))"
        "\<And>e. rb = Inl e \<Longrightarrow> r2 = Inl e"
        by (simp_all add: todjango_body_def)
      from n2(3) r2 have shape: "(\<exists>n. r2 = Inr (0, n)) \<or> (\<exists>e. r2 = Inl (Raised e))" by auto
      from w2 n2(1) new(1) have c: "calls w2 = calls w1 @ CallAll model # (new @ new2)"
        by simp
      have s2: "\<exists>row\<in>set rows. ?pk row = VNone \<and>
                 orm_construct orm model (row_vm hdr row) = Inr obj"
        if "CallSave obj \<in> set (new @ new2)" for obj
      proof -
        from that n2(2) have "CallSave obj \<in> set new" by auto
        then show ?thesis by (rule saves)
      qed
      have "r2 = Inr (0, 0) \<and> w2 = \<lparr>db = db w1, calls = calls w1 @ [CallAll model]\<rparr>"
        if "\<forall>row\<in>set rows. ?pk row \<noteq> VNone"
      proof -
        from new(4) that Inr have eq: "st2 = ?st0" "wb2 = ?wa2" by simp_all
        then have "unsaved_models st2 = []" by simp
        with n2(4) have "rb = Inr ()" "w3 = wb2" by simp_all
        with r2(1) w2 eq \<open>unsaved_models st2 = []\<close> show ?thesis by simp
      qed
      with c shape s2 show ?thesis by blast
    qed
  qed
  from same main show ?thesis by blast
qed


text \<open>The reference storage keeps what is saved.\<close>

lemma next_id_fresh: "m \<in> set d \<Longrightarrow> inst_pk m = VInt i \<Longrightarrow> i < next_id d"
  by (induction d) (auto split: val.splits)

lemma inst_pk_assign_key: "inst_pk (assign_key d obj) = VInt (next_id d)"
  by (simp add: assign_key_def inst_pk_def field_value_def update_conv')

lemma keys_ok_assign_key:
  assumes ok: "keys_ok model d" and cls: "inst_class obj = model"
  shows "keys_ok model (d @ [assign_key d obj])"
proof -
  have "VInt (next_id d) \<notin> inst_pk ` set d"
  proof
    assume "VInt (next_id d) \<in> inst_pk ` set d"
    then obtain m where "m \<in> set d" "inst_pk m = VInt (next_id d)" by auto
    from next_id_fresh [OF this] show False by simp
  qed
  moreover from cls have "inst_class (assign_key d obj) = model" by (simp add: assign_key_def)
  ultimately show ?thesis using ok by (simp add: keys_ok_def inst_pk_assign_key)
qed

lemma keys_ok_append:
  assumes ok: "keys_ok model d" and cls: "inst_class obj = model"
    and nn: "inst_pk obj \<noteq> VNone" and new: "inst_pk obj \<notin> inst_pk ` set d"
  shows "keys_ok model (d @ [obj])"
  using assms by (simp add: keys_ok_def)

lemma set_replace_pk:
  "m \<in> set (replace_pk obj d) \<Longrightarrow> m = obj \<or> (m \<in> set d \<and> inst_pk m \<noteq> inst_pk obj)"
  by (auto simp: replace_pk_def split: if_splits)

lemma pks_replace_pk: "map inst_pk (replace_pk obj d) = map inst_pk d"
  by (induction d) (auto simp: replace_pk_def)

lemma replace_pk_mem:
  "x \<in> set d \<Longrightarrow> inst_pk x = inst_pk obj \<Longrightarrow> obj \<in> set (replace_pk obj d)"
  by (force simp: replace_pk_def)

lemma replace_pk_keep:
  "x \<in> set d \<Longrightarrow> inst_pk x \<noteq> inst_pk obj \<Longrightarrow> x \<in> set (replace_pk obj d)"
  by (force simp: replace_pk_def)

lemma keys_ok_replace_pk:
  assumes ok: "keys_ok model d" and cls: "inst_class obj = model"
  shows "keys_ok model (replace_pk obj d)"
proof -
  have "inst_class m = model" if "m \<in> set (replace_pk obj d)" for m
    using set_replace_pk [OF that] cls ok by (auto simp: keys_ok_def)
  moreover have "set (map inst_pk (replace_pk obj d)) = set (map inst_pk d)"
    by (simp only: pks_replace_pk)
  then have "inst_pk ` set (replace_pk obj d) = inst_pk ` set d" by simp
  ultimately show ?thesis using ok by (simp add: keys_ok_def pks_replace_pk)
qed

lemma mem_save_law:
  assumes cls: "inst_class obj = model" and ok: "keys_ok model d"
    and sv: "mem_save obj d = Inr d'"
  shows "keys_ok model d' \<and>
        (if inst_pk obj = VNone then set d \<subseteq> set d'
         else (\<exists>m\<in>set d'. agrees model m obj) \<and>
              (\<forall>m\<in>set d. inst_pk m \<noteq> inst_pk obj \<longrightarrow> m \<in> set d'))"
proof (cases "inst_pk obj = VNone")
  case True
  with sv have "d' = d @ [assign_key d obj]" by (simp add: mem_save_def)
  with True keys_ok_assign_key [OF ok cls] show ?thesis by auto
next
  case False
  show ?thesis
  proof (cases "inst_pk obj \<in> inst_pk ` set d")
    case True
    with sv False have d': "d' = replace_pk obj d" by (simp add: mem_save_def)
    from True obtain x where "x \<in> set d" "inst_pk x = inst_pk obj" by auto
    then have "obj \<in> set d'" unfolding d' by (rule replace_pk_mem)
    then have "\<exists>m\<in>set d'. agrees model m obj" using agrees_refl by blast
    moreover have "\<forall>m\<in>set d. inst_pk m \<noteq> inst_pk obj \<longrightarrow> m \<in> set d'"
      unfolding d' by (blast intro: replace_pk_keep)
    ultimately show ?thesis using False keys_ok_replace_pk [OF ok cls] d' by simp
  next
    case new: False
    with sv False have d': "d' = d @ [obj]" by (simp add: mem_save_def)
    have "\<exists>m\<in>set d'. agrees model m obj" using d' agrees_refl by auto
    with False keys_ok_append [OF ok cls False new] d' show ?thesis by simp
  qed
qed

lemma mem_insert_all_law:
  "\<forall>u\<in>set chunk. inst_class u = model \<Longrightarrow> keys_ok model d \<Longrightarrow>
   mem_insert_all chunk d = Inr d' \<Longrightarrow>
   keys_ok model d' \<and> set d \<subseteq> set d' \<and>
   (\<forall>u\<in>set chunk. inst_pk u \<noteq> VNone \<longrightarrow> (\<exists>m\<in>set d'. agrees model m u))"
proof (induction chunk arbitrary: d)
  case Nil
  then show ?case by simp
next
  case (Cons u us)
  from Cons.prems(1) have cu: "inst_class u = model"
    and cus: "\<forall>u\<in>set us. inst_class u = model" by simp_all
  show ?case
  proof (cases "inst_pk u = VNone")
    case True
    with Cons.prems(3) have "mem_insert_all us (d @ [assign_key d u]) = Inr d'" by simp
    from Cons.IH [OF cus keys_ok_assign_key [OF Cons.prems(2) cu] this] True
    show ?thesis by auto
  next
    case False
    with Cons.prems(3) have new: "inst_pk u \<notin> inst_pk ` set d"
      and rest: "mem_insert_all us (d @ [u]) = Inr d'"
      by (auto split: if_splits)
    from Cons.IH [OF cus keys_ok_append [OF Cons.prems(2) cu False new] rest]
    have ih: "keys_ok model d'" "set (d @ [u]) \<subseteq> set d'"
      "\<forall>u\<in>set us. inst_pk u \<noteq> VNone \<longrightarrow> (\<exists>m\<in>set d'. agrees model m u)" by blast+
    from ih(2) have "u \<in> set d'" by simp
    then have "\<exists>m\<in>set d'. agrees model m u" using agrees_refl by blast
    with ih show ?thesis by simp
  qed
qed

lemma map_of_fields:
  "map_of (map (\<lambda>f. (f, g f)) fs) k = (if k \<in> set fs then Some (g k) else None)"
  by (induction fs) auto

lemma mem_construct_law:
  assumes c: "mem_construct model vm = Inr obj" and dv: "distinct (map fst vm)"
    and keys: "fst ` set vm \<subseteq> set (field_names model)"
  shows "inst_class obj = model \<and> inst_pk obj = dict_get vm (pk_name model) \<and> matches vm obj"
proof -
  from keys have "filter (\<lambda>(k, v). k \<notin> set (field_names model) \<and> \<not> plain_name model k) vm = []"
    by (auto simp: filter_empty_conv)
  with c have obj: "obj = \<lparr>inst_class = model,
                     attrs = map (\<lambda>f. (f, dict_get vm f)) (field_names model)\<rparr>"
    by (simp add: mem_construct_def split: if_splits)
  have "inst_pk obj = dict_get vm (pk_name model)"
  proof (cases "pk_name model \<in> set (field_names model)")
    case True
    with obj show ?thesis by (simp add: inst_pk_def field_value_def map_of_fields)
  next
    case False
    with keys have "pk_name model \<notin> fst ` set vm" by blast
    then have "map_of vm (pk_name model) = None" by (simp add: map_of_eq_None_iff)
    with False obj show ?thesis
      by (simp add: inst_pk_def field_value_def map_of_fields dict_get_def)
  qed
  moreover have "matches vm obj"
    unfolding matches_def
  proof (intro ballI, clarify)
    fix k v assume kv: "(k, v) \<in> set vm"
    with keys have "k \<in> set (field_names model)" by force
    moreover from kv dv have "map_of vm k = Some v" by simp
    ultimately show "map_of (attrs obj) k = Some v"
      using obj by (simp add: map_of_fields dict_get_def)
  qed
  ultimately show ?thesis using obj by simp
qed

lemma mem_keeps_saved: "keeps_saved mem_orm model"
proof -
  have st: "stored mem_orm model d = d" for d
    by (simp add: stored_def mem_orm_def mem_all_def)
  show ?thesis
    unfolding keeps_saved_def st
  proof (intro conjI allI impI)
    fix d show "\<exists>ms. orm_all mem_orm model d = Inr ms" by (simp add: mem_orm_def mem_all_def)
  next
    fix obj d d'
    assume "inst_class obj = model \<and> keys_ok model d \<and> orm_save mem_orm obj d = Inr d'"
    then have a: "inst_class obj = model" "keys_ok model d" "mem_save obj d = Inr d'"
      by (simp_all add: mem_orm_def)
    from mem_save_law [OF a] show "keys_ok model d'" by simp
    from mem_save_law [OF a] show "if inst_pk obj = VNone then set d \<subseteq> set d'
         else (\<exists>m\<in>set d'. agrees model m obj) \<and>
              (\<forall>m\<in>set d. inst_pk m \<noteq> inst_pk obj \<longrightarrow> m \<in> set d')" by simp
  next
    fix chunk d d'
    assume "(\<forall>u\<in>set chunk. inst_class u = model) \<and> keys_ok model d \<and>
            orm_bulk_create mem_orm model chunk d = Inr d'"
    then have a: "\<forall>u\<in>set chunk. inst_class u = model" "keys_ok model d"
      "mem_insert_all chunk d = Inr d'"
      by (simp_all add: mem_orm_def mem_bulk_create_def)
    from mem_insert_all_law [OF a] show "keys_ok model d'" by simp
    from mem_insert_all_law [OF a] show "set d \<subseteq> set d'" by simp
    from mem_insert_all_law [OF a] show "\<forall>u\<in>set chunk. inst_pk u \<noteq> VNone \<longrightarrow>
           (\<exists>m\<in>set d'. agrees model m u)" by simp
  next
    fix vm obj
    assume "orm_construct mem_orm model vm = Inr obj \<and> distinct (map fst vm) \<and>
        fst ` set vm \<subseteq> set (field_names model)"
    then have a: "mem_construct model vm = Inr obj" "distinct (map fst vm)"
      "fst ` set vm \<subseteq> set (field_names model)" by (simp_all add: mem_orm_def)
    from mem_construct_law [OF a] show "inst_class obj = model" by simp
    from mem_construct_law [OF a] show "inst_pk obj = dict_get vm (pk_name model)" by simp
    from mem_construct_law [OF a] show "matches vm obj" by simp
  qed
qed


theorem todjango_rerun_witness:
  "keeps_saved mem_orm Person \<and>
   keys_ok Person (stored mem_orm Person (db world0)) \<and>
   list_all (\<lambda>k. k \<in> set (field_names Person) \<and> plain_name Person k)
     [''id'', ''name'', ''age''] \<and>
   distinct (filter (\<lambda>p. p \<noteq> VNone)
     (map (row_pk Person [''id'', ''name'', ''age'']) (snd scenario_rows))) \<and>
   todjango mem_orm [] (legacy_table scenario_rows) (ModelClass Person) True True True world0 =
     (Inr (1, 1),
      \<lparr>db = [person 1 ''Alice'' 31, person 2 ''Bob'' 25],
       calls = [CallAll Person, CallSave (person 1 ''Alice'' 31),
                CallBulkCreate [person 2 ''Bob'' 25]]\<rparr>) \<and>
   todjango mem_orm [] (legacy_table scenario_rows) (ModelClass Person) True True True
     \<lparr>db = [person 1 ''Alice'' 31, person 2 ''Bob'' 25],
      calls = [CallAll Person, CallSave (person 1 ''Alice'' 31),
               CallBulkCreate [person 2 ''Bob'' 25]]\<rparr> =
     (Inr (0, 0),
      \<lparr>db = [person 1 ''Alice'' 31, person 2 ''Bob'' 25],
       calls = [CallAll Person, CallSave (person 1 ''Alice'' 31),
                CallBulkCreate [person 2 ''Bob'' 25], CallAll Person]\<rparr>)"
proof -
  let ?hdr = "[''id'', ''name'', ''age'']"
  let ?rows = "[[VInt 1, VStr ''Alice'', VInt 31], [VInt 2, VStr ''Bob'', VInt 25]]"
  let ?tbl = "legacy_table scenario_rows"
  let ?w1 = "\<lparr>db = [person 1 ''Alice'' 31, person 2 ''Bob'' 25],
              calls = [CallAll Person, CallSave (person 1 ''Alice'' 31),
                       CallBulkCreate [person 2 ''Bob'' 25]]\<rparr>"
  let ?run2 = "todjango mem_orm [] ?tbl (ModelClass Person) True True True ?w1"
  have laws: "keeps_saved mem_orm Person" by (rule mem_keeps_saved)
  have ok0: "keys_ok Person (stored mem_orm Person (db world0))"
    by (simp add: keys_ok_def stored_def run_defs)
  have lg: "legacy_next ?tbl" by (simp add: legacy_table_def)
  have tbl: "table_rows ?tbl = Some (?hdr, ?rows)"
    by (simp add: legacy_table_def scenario_rows_def)
  have hdr: "\<forall>k\<in>set ?hdr. k \<in> set (field_names Person) \<and> plain_name Person k"
    by (simp add: Person_def plain_name_def class_descriptor_def)
  have keys: "map (row_pk Person ?hdr) ?rows = [VInt 1, VInt 2]"
    by (simp add: row_pk_def row_vm_def dict_get_def Person_def)
  then have dist: "distinct (filter (\<lambda>p. p \<noteq> VNone) (map (row_pk Person ?hdr) ?rows))"
    by simp
  have size: "True \<longrightarrow> 0 < (case map_of ([] :: (string \<times> int) list) ''BULK_CREATE_CHUNK_SIZE'' of
                             Some v \<Rightarrow> v | None \<Rightarrow> 50)" by simp
  have run1: "todjango mem_orm [] ?tbl (ModelClass Person) True True True world0 =
                (Inr (1, 1), ?w1)"
    by (simp add: run_defs scenario_rows_def upt_rec [of 0] upt_rec [of 1])
  have run2: "?run2 = (fst ?run2, snd ?run2)" by simp
  have keyed: "\<forall>row\<in>set ?rows. row_pk Person ?hdr row \<noteq> VNone"
    by (simp add: row_pk_def row_vm_def dict_get_def Person_def)
  from todjango_rerun [OF laws ok0 lg tbl hdr dist size run1 run2] keyed
  have "fst ?run2 = Inr (0, 0) \<and>
        snd ?run2 = \<lparr>db = db ?w1, calls = calls ?w1 @ [CallAll Person]\<rparr>"
    by blast
  then have "?run2 = (Inr (0, 0), \<lparr>db = db ?w1, calls = calls ?w1 @ [CallAll Person]\<rparr>)"
    by (simp add: prod_eq_iff)
  then have 2: "?run2 = (Inr (0, 0),
      \<lparr>db = [person 1 ''Alice'' 31, person 2 ''Bob'' 25],
       calls = [CallAll Person, CallSave (person 1 ''Alice'' 31),
                CallBulkCreate [person 2 ''Bob'' 25], CallAll Person]\<rparr>)" by simp
  from hdr have hdr': "list_all (\<lambda>k. k \<in> set (field_names Person) \<and> plain_name Person k) ?hdr"
    by (simp add: list_all_iff)
  from dist have dist': "distinct (filter (\<lambda>p. p \<noteq> VNone)
     (map (row_pk Person ?hdr) (snd scenario_rows)))" by (simp add: scenario_rows_def)
  from laws ok0 hdr' dist' run1 2 show ?thesis by blast
qed

theorem todjango_rerun_counterexample:
  "\<not> distinct (filter (\<lambda>p. p \<noteq> VNone)
       (map (row_pk Person [''id'', ''name'', ''age'']) (snd dup_rows))) \<and>
   todjango mem_orm [] (legacy_table dup_rows) (ModelClass Person) True True True world0 =
     (Inr (2, 0),
      \<lparr>db = [person 1 ''Alice'' 32],
       calls = [CallAll Person, CallSave (person 1 ''Alice'' 31),
                CallSave (person 1 ''Alice'' 32)]\<rparr>) \<and>
   todjango mem_orm [] (legacy_table dup_rows) (ModelClass Person) True True True
     \<lparr>db = [person 1 ''Alice'' 32],
      calls = [CallAll Person, CallSave (person 1 ''Alice'' 31),
               CallSave (person 1 ''Alice'' 32)]\<rparr> =
     (Inr (2, 0),
      \<lparr>db = [person 1 ''Alice'' 32],
       calls = [CallAll Person, CallSave (person 1 ''Alice'' 31),
                CallSave (person 1 ''Alice'' 32), CallAll Person,
                CallSave (person 1 ''Alice'' 31), CallSave (person 1 ''Alice'' 32)]\<rparr>)"
proof (intro conjI)
  show "\<not> distinct (filter (\<lambda>p. p \<noteq> VNone)
       (map (row_pk Person [''id'', ''name'', ''age'']) (snd dup_rows)))"
    by (simp add: dup_rows_def row_pk_def row_vm_def dict_get_def Person_def)
  show "todjango mem_orm [] (legacy_table dup_rows) (ModelClass Person) True True True world0 =
     (Inr (2, 0),
      \<lparr>db = [person 1 ''Alice'' 32],
       calls = [CallAll Person, CallSave (person 1 ''Alice'' 31),
                CallSave (person 1 ''Alice'' 32)]\<rparr>)"
    by (simp add: run_defs dup_rows_def)
  show "todjango mem_orm [] (legacy_table dup_rows) (ModelClass Person) True True True
     \<lparr>db = [person 1 ''Alice'' 32],
      calls = [CallAll Person, CallSave (person 1 ''Alice'' 31),
               CallSave (person 1 ''Alice'' 32)]\<rparr> =
     (Inr (2, 0),
      \<lparr>db = [person 1 ''Alice'' 32],
       calls = [CallAll Person, CallSave (person 1 ''Alice'' 31),
                CallSave (person 1 ''Alice'' 32), CallAll Person,
                CallSave (person 1 ''Alice'' 31), CallSave (person 1 ''Alice'' 32)]\<rparr>)"
    by (simp add: run_defs dup_rows_def)
qed

end
